theory Spec2Isabelle
  imports Complex_Main "HOL-Library.Word" "HOL-Library.AList" "HOL-Library.Sublist"
begin

section \<open>JavaScript strings\<close>

text \<open>
  A JavaScript string is a sequence of UTF-16 code units. \<open>length\<close>, \<open>slice\<close>,
  \<open>trim\<close> and \<open>lastIndexOf\<close> all count code units, so the model is a list of
  16-bit words.
\<close>

type_synonym jchar = "16 word"
type_synonym jstring = "jchar list"

definition LF :: jchar where "LF = 0x0A"
definition CR :: jchar where "CR = 0x0D"

text \<open>
  The characters that \<open>String.prototype.trim\<close> strips and that \<open>\\s\<close> matches:
  ECMAScript WhiteSpace and LineTerminator.
\<close>

definition isWhitespace :: "jchar \<Rightarrow> bool" where
  "isWhitespace c \<longleftrightarrow>
     c = 0x09 \<or> c = 0x0A \<or> c = 0x0B \<or> c = 0x0C \<or> c = 0x0D \<or> c = 0x20 \<or>
     c = 0xA0 \<or> c = 0x1680 \<or> (0x2000 \<le> c \<and> c \<le> 0x200A) \<or>
     c = 0x2028 \<or> c = 0x2029 \<or> c = 0x202F \<or> c = 0x205F \<or> c = 0x3000 \<or> c = 0xFEFF"

definition trimStart :: "jstring \<Rightarrow> jstring" where
  "trimStart s = dropWhile isWhitespace s"

definition trimEnd :: "jstring \<Rightarrow> jstring" where
  "trimEnd s = rev (dropWhile isWhitespace (rev s))"

definition trim :: "jstring \<Rightarrow> jstring" where
  "trim s = trimEnd (trimStart s)"

text \<open>\<open>s.slice(a, b)\<close> for \<open>0 \<le> a\<close> and \<open>0 \<le> b\<close>.\<close>

definition sliceStr :: "jstring \<Rightarrow> nat \<Rightarrow> nat \<Rightarrow> jstring" where
  "sliceStr s a b = take (b - a) (drop a s)"

text \<open>\<open>xs.slice(a, b)\<close> on an array.\<close>

definition sliceList :: "'a list \<Rightarrow> nat \<Rightarrow> nat \<Rightarrow> 'a list" where
  "sliceList xs a b = take (b - a) (drop a xs)"

text \<open>\<open>content.replace(/\\r\\n/g, "\\n")\<close>\<close>

fun replaceCRLF :: "jstring \<Rightarrow> jstring" where
  "replaceCRLF [] = []"
| "replaceCRLF [c] = [c]"
| "replaceCRLF (c # d # s) =
     (if c = CR \<and> d = LF then LF # replaceCRLF s else c # replaceCRLF (d # s))"

text \<open>
  \<open>s.lastIndexOf("\\n", from)\<close>: the greatest index \<open>i \<le> from\<close> with
  \<open>s[i] = "\\n"\<close>; \<open>None\<close> stands for the source's \<open>-1\<close>.
\<close>

definition lastIndexOfLF :: "jstring \<Rightarrow> nat \<Rightarrow> nat option" where
  "lastIndexOfLF s from =
     (let found = filter (\<lambda>i. s ! i = LF) [0..<min (Suc from) (length s)]
      in if found = [] then None else Some (last found))"

section \<open>TextChunker\<close>

text \<open>
  \<open>TextChunker.chunk\<close>, latest revision of \<open>text-chunker.ts\<close>. \<open>chunkSize\<close> and
  \<open>chunkOverlap\<close> are non-negative integers; \<open>Math.floor(chunkSize * 0.2)\<close> is
  \<open>chunkSize div 5\<close> on them. \<open>windowEnd\<close> is the value of \<open>end\<close> after the
  newline adjustment of one loop iteration.
\<close>

definition windowEnd :: "nat \<Rightarrow> jstring \<Rightarrow> nat \<Rightarrow> nat" where
  "windowEnd chunkSize clean start =
     (let end = min (length clean) (start + chunkSize) in
      if end < length clean then
        (let searchStart = max start (end - chunkSize div 5) in
         case lastIndexOfLF clean end of
           Some lastNewline \<Rightarrow> if lastNewline \<ge> searchStart then lastNewline + 1 else end
         | None \<Rightarrow> end)
      else end)"

function chunkLoop :: "nat \<Rightarrow> nat \<Rightarrow> jstring \<Rightarrow> nat \<Rightarrow> jstring list" where
  "chunkLoop chunkSize chunkOverlap clean start =
     (if start < length clean then
        (let end = windowEnd chunkSize clean start;
             text = trim (sliceStr clean start end);
             results = (if text \<noteq> [] then [text] else [])
         in if end \<ge> length clean then results
            else results @ chunkLoop chunkSize chunkOverlap clean
                             (max (start + 1) (end - chunkOverlap)))
      else [])"
  by pat_completeness auto
termination
  by (relation "measure (\<lambda>(chunkSize, chunkOverlap, clean, start). length clean - start)") auto

declare chunkLoop.simps [simp del]

text \<open>\<open>const clean = content.replace(/\\r\\n/g, "\\n").trim()\<close>\<close>

definition cleanText :: "jstring \<Rightarrow> jstring" where
  "cleanText content = trim (replaceCRLF content)"

definition chunk :: "nat \<Rightarrow> nat \<Rightarrow> jstring \<Rightarrow> jstring list" where
  "chunk chunkSize chunkOverlap content =
     (let clean = cleanText content in
      if clean = [] then [] else chunkLoop chunkSize chunkOverlap clean 0)"

text \<open>
  The windows \<open>(start, end)\<close> that the loop of \<open>chunk\<close> visits, in order: the same
  recursion as \<open>chunkLoop\<close>, recording the positions instead of the text.
\<close>

function chunkWindows :: "nat \<Rightarrow> nat \<Rightarrow> jstring \<Rightarrow> nat \<Rightarrow> (nat \<times> nat) list" where
  "chunkWindows chunkSize chunkOverlap clean start =
     (if start < length clean then
        (let end = windowEnd chunkSize clean start
         in if end \<ge> length clean then [(start, end)]
            else (start, end) # chunkWindows chunkSize chunkOverlap clean
                             (max (start + 1) (end - chunkOverlap)))
      else [])"
  by pat_completeness auto
termination
  by (relation "measure (\<lambda>(chunkSize, chunkOverlap, clean, start). length clean - start)") auto

declare chunkWindows.simps [simp del]

section \<open>Data model\<close>

text \<open>
  JavaScript numbers are modelled as reals: the finite doubles, with exact arithmetic.
  \<open>NaN\<close> and the infinities are outside the model. A JavaScript \<open>Map\<close> is an
  association list in insertion order: \<open>Map.get\<close> is \<open>map_of\<close>, \<open>Map.set\<close> is
  \<open>AList.update\<close> (in place for a present key, appended for a new one), \<open>Map.delete\<close> is
  \<open>AList.delete\<close>, \<open>keys()\<close> and \<open>values()\<close> are \<open>map fst\<close> and \<open>map snd\<close>.
\<close>

definition js :: "string \<Rightarrow> jstring" where
  "js s = map of_char s"

datatype json =
    JNull
  | JBool bool
  | JNum real
  | JStr jstring
  | JArr "json list"
  | JObj "(jstring \<times> json) list"

text \<open>
  \<open>RagChunk\<close>. The optional \<open>symbols\<close> array is held as the JSON value it serialises to:
  the indexer, the store and the searcher pass it along and never look inside.
\<close>

record RagChunk =
  cId :: jstring
  cFilePath :: jstring
  cModifiedAt :: real
  cContent :: jstring
  cEmbedding :: "real list"
  cSymbols :: "json option"

record RagFileState =
  sModifiedAt :: real
  sSize :: real
  sContentHash :: jstring
  sChunkIds :: "jstring list"

record CandidateFile =
  relativePath :: jstring
  fullPath :: jstring
  fModifiedAt :: real
  fSize :: real

record ChunkResult =
  rContent :: jstring
  rSymbols :: "json option"

record LshAnnIndex =
  dimensions :: nat
  projection :: "real list list"
  buckets :: "(jstring \<times> jstring list) list"

datatype RagPhase = Idle | Scanning | Embedding | Ready | Failed

text \<open>
  \<open>RagStatus\<close> without the fields that \<open>toStatus\<close> derives on every read
  (\<open>staleWarning\<close>, \<open>staleAgeMs\<close>, \<open>staleThresholdMs\<close>, \<open>cachedFolders\<close>) and without
  the copies of \<open>folderPath\<close> and of the two configuration lists.
\<close>

record RagStatus =
  enabled :: bool
  phase :: RagPhase
  totalFiles :: nat
  filesToEmbed :: nat
  embeddedFiles :: nat
  skippedUnchanged :: nat
  totalChunks :: nat
  dbSizeBytes :: nat
  lastIndexedAt :: "real option"
  fileChangeDrift :: nat
  driftAddedFiles :: nat
  driftModifiedFiles :: nat
  driftDeletedFiles :: nat
  driftCheckedAt :: "real option"
  message :: "jstring option"

text \<open>
  \<open>FolderCache\<close>. \<open>runningIndex\<close> and \<open>runningHealthRefresh\<close> are unset between calls
  in a sequential run and are left out, as are the two per-folder query caches, which no
  code reads or writes, and the extension and folder lists of the configuration, which
  only the scanner reads.
\<close>

record FolderCache =
  folderPath :: jstring
  storagePath :: "jstring option"
  configEnabled :: bool
  status :: RagStatus
  chunks :: "(jstring \<times> RagChunk) list"
  fileStates :: "(jstring \<times> RagFileState) list"
  persistedLoaded :: bool
  indexRevision :: nat
  annIndex :: "LshAnnIndex option"

text \<open>What a \<open>catch\<close> clause can receive.\<close>

datatype js_error =
    DOMException jstring jstring
  | Error jstring
  | Thrown

text \<open>The decimal numeral of a non-negative integer, as a template literal and a property key print it.\<close>

definition digitChars :: "jchar list" where
  "digitChars = [0x30, 0x31, 0x32, 0x33, 0x34, 0x35, 0x36, 0x37, 0x38, 0x39]"

function decimal :: "nat \<Rightarrow> jstring" where
  "decimal n = (if n < 10 then [digitChars ! n] else decimal (n div 10) @ [digitChars ! (n mod 10)])"
  by pat_completeness auto
termination
  by (relation "measure id") auto

declare decimal.simps [simp del]

section \<open>Disk storage\<close>

text \<open>
  The text of a file is abstracted to what \<open>JSON.parse\<close> makes of it: \<open>Blank\<close> is the
  empty text, \<open>Malformed\<close> a non-empty text that \<open>JSON.parse\<close> rejects, \<open>Json v\<close> a
  text that parses to \<open>v\<close>; \<open>JSON.stringify\<close> of a payload writes \<open>Json\<close> of the
  payload. A disk maps the path of each existing file to its text; directories are not
  part of it.
\<close>

datatype fileText = Blank | Malformed | Json json

type_synonym disk = "jstring \<Rightarrow> fileText option"

definition RAG_STORAGE_DIR :: jstring where "RAG_STORAGE_DIR = js ''.rag-ts''"
definition RAG_DB_FILE :: jstring where "RAG_DB_FILE = js ''.rag-db''"
definition RAG_INDEX_FILE :: jstring where "RAG_INDEX_FILE = js ''.rag-index''"
definition RAG_DB_VERSION :: real where "RAG_DB_VERSION = 1"
definition RAG_INDEX_VERSION :: real where "RAG_INDEX_VERSION = 1"

text \<open>
  \<open>path.join\<close> of Node for POSIX paths, on two arguments: the non-empty arguments are
  joined with \<open>/\<close> and the result is normalised. \<open>normalizeString\<close> walks over the
  segments between separators: an empty segment and \<open>.\<close> are dropped, \<open>..\<close> removes
  the segment before it when there is one that is not \<open>..\<close> itself, and is kept
  otherwise when the path is relative.
\<close>

fun splitSlash :: "jstring \<Rightarrow> jstring list" where
  "splitSlash [] = [[]]"
| "splitSlash (c # s) =
     (if c = 0x2F then [] # splitSlash s
      else (case splitSlash s of [] \<Rightarrow> [[c]] | seg # segs \<Rightarrow> (c # seg) # segs))"

fun joinSlash :: "jstring list \<Rightarrow> jstring" where
  "joinSlash [] = []"
| "joinSlash [seg] = seg"
| "joinSlash (seg # segs) = seg @ [0x2F] @ joinSlash segs"

definition normStep :: "bool \<Rightarrow> jstring list \<Rightarrow> jstring \<Rightarrow> jstring list" where
  "normStep allowAboveRoot res seg =
     (if seg = [] \<or> seg = [0x2E] then res
      else if seg = [0x2E, 0x2E] then
        (if res \<noteq> [] \<and> last res \<noteq> [0x2E, 0x2E] then butlast res
         else if allowAboveRoot then res @ [seg] else res)
      else res @ [seg])"

definition normalizeString :: "jstring \<Rightarrow> bool \<Rightarrow> jstring" where
  "normalizeString path allowAboveRoot =
     joinSlash (foldl (normStep allowAboveRoot) [] (splitSlash path))"

definition normalizePath :: "jstring \<Rightarrow> jstring" where
  "normalizePath path =
     (if path = [] then [0x2E]
      else
        (let isAbsolute = (hd path = 0x2F);
             trailingSeparator = (last path = 0x2F);
             normalized = normalizeString path (\<not> isAbsolute)
         in if normalized = [] then
              (if isAbsolute then [0x2F] else if trailingSeparator then [0x2E, 0x2F] else [0x2E])
            else (if isAbsolute then [0x2F] else [])
                 @ normalized @ (if trailingSeparator then [0x2F] else [])))"

definition join :: "jstring \<Rightarrow> jstring \<Rightarrow> jstring" where
  "join a b =
     (if a = [] \<and> b = [] then [0x2E]
      else normalizePath (if a = [] then b else if b = [] then a else a @ [0x2F] @ b))"

text \<open>\<open>getPaths\<close> of \<open>disk-storage.ts\<close>: its only parameter is \<open>folderPath\<close>.\<close>

definition ragDir :: "jstring \<Rightarrow> jstring" where
  "ragDir folder = join folder RAG_STORAGE_DIR"

definition dbPath :: "jstring \<Rightarrow> jstring" where
  "dbPath folder = join (ragDir folder) RAG_DB_FILE"

definition indexPath :: "jstring \<Rightarrow> jstring" where
  "indexPath folder = join (ragDir folder) RAG_INDEX_FILE"

text \<open>Property access \<open>v.k\<close> on a parsed value that is not \<open>null\<close>; \<open>None\<close> is \<open>undefined\<close>.\<close>

definition field :: "string \<Rightarrow> json \<Rightarrow> json option" where
  "field k v = (case v of JObj kvs \<Rightarrow> map_of kvs (js k) | _ \<Rightarrow> None)"

definition truthy :: "json \<Rightarrow> bool" where
  "truthy v = (case v of JNull \<Rightarrow> False | JBool b \<Rightarrow> b | JNum x \<Rightarrow> x \<noteq> 0
                | JStr s \<Rightarrow> s \<noteq> [] | JArr _ \<Rightarrow> True | JObj _ \<Rightarrow> True)"

definition isArray :: "json option \<Rightarrow> bool" where
  "isArray v = (case v of Some (JArr _) \<Rightarrow> True | _ \<Rightarrow> False)"

definition isNumber :: "json option \<Rightarrow> bool" where
  "isNumber v = (case v of Some (JNum _) \<Rightarrow> True | _ \<Rightarrow> False)"

definition numbersOf :: "json list \<Rightarrow> real list option" where
  "numbersOf vs =
     (if \<forall>v\<in>set vs. isNumber (Some v) then Some (map (\<lambda>v. case v of JNum x \<Rightarrow> x | _ \<Rightarrow> 0) vs)
      else None)"

definition chunkToJson :: "RagChunk \<Rightarrow> json" where
  "chunkToJson c =
     JObj ([(js ''id'', JStr (cId c)),
            (js ''filePath'', JStr (cFilePath c)),
            (js ''modifiedAt'', JNum (cModifiedAt c)),
            (js ''content'', JStr (cContent c)),
            (js ''embedding'', JArr (map JNum (cEmbedding c)))]
           @ (case cSymbols c of None \<Rightarrow> [] | Some s \<Rightarrow> [(js ''symbols'', s)]))"

definition stateToJson :: "RagFileState \<Rightarrow> json" where
  "stateToJson st =
     JObj [(js ''modifiedAt'', JNum (sModifiedAt st)),
           (js ''size'', JNum (sSize st)),
           (js ''contentHash'', JStr (sContentHash st)),
           (js ''chunkIds'', JArr (map JStr (sChunkIds st)))]"

text \<open>
  The typed reading of a parsed chunk object that has passed the loader's checks. The
  loader stores the parsed object as it is; an object whose remaining fields do not have
  the types \<open>RagChunk\<close> declares is not a \<open>RagChunk\<close> value, and this model leaves it out.
\<close>

definition chunkOfJson :: "json \<Rightarrow> RagChunk option" where
  "chunkOfJson v =
     (case (field ''id'' v, field ''filePath'' v, field ''modifiedAt'' v, field ''content'' v,
            field ''embedding'' v) of
        (Some (JStr i), Some (JStr f), Some (JNum m), Some (JStr c), Some (JArr e)) \<Rightarrow>
          (case numbersOf e of
             Some xs \<Rightarrow> Some \<lparr>cId = i, cFilePath = f, cModifiedAt = m, cContent = c,
                             cEmbedding = xs, cSymbols = field ''symbols'' v\<rparr>
           | None \<Rightarrow> None)
      | _ \<Rightarrow> None)"

text \<open>One iteration of \<open>for (const chunk of parsedDb.chunks)\<close>.\<close>

definition loadChunk :: "(jstring \<times> RagChunk) list \<Rightarrow> json \<Rightarrow> (jstring \<times> RagChunk) list" where
  "loadChunk acc ch =
     (if \<not> truthy ch \<or> \<not> (case field ''id'' ch of Some i \<Rightarrow> truthy i | None \<Rightarrow> False)
         \<or> \<not> isArray (field ''embedding'' ch)
      then acc
      else (case chunkOfJson ch of
              Some c \<Rightarrow> AList.update (cId c) c acc
            | None \<Rightarrow> acc))"

text \<open>One iteration of \<open>for (const [filePath, state] of Object.entries(parsedIndex.files))\<close>.\<close>

definition loadState ::
  "(jstring \<times> RagFileState) list \<Rightarrow> jstring \<times> json \<Rightarrow> (jstring \<times> RagFileState) list" where
  "loadState acc entry =
     (let filePath = fst entry; state = snd entry in
      if \<not> truthy state \<or> \<not> isNumber (field ''modifiedAt'' state)
         \<or> \<not> isArray (field ''chunkIds'' state)
      then acc
      else AList.update filePath
             \<lparr>sModifiedAt = (case field ''modifiedAt'' state of Some (JNum m) \<Rightarrow> m | _ \<Rightarrow> 0),
              sSize = (case field ''size'' state of Some (JNum n) \<Rightarrow> n | _ \<Rightarrow> - 1),
              sContentHash = (case field ''contentHash'' state of Some (JStr h) \<Rightarrow> h | _ \<Rightarrow> []),
              sChunkIds = (case field ''chunkIds'' state of
                             Some (JArr ids) \<Rightarrow>
                               concat (map (\<lambda>v. case v of JStr s \<Rightarrow> [s] | _ \<Rightarrow> []) ids)
                           | _ \<Rightarrow> [])\<rparr>
             acc)"

record LoadResult =
  lrChunks :: "(jstring \<times> RagChunk) list"
  lrFileStates :: "(jstring \<times> RagFileState) list"
  lrLastIndexedAt :: "real option"

text \<open>
  Reading a file for the loader: \<open>readFile(path, "utf-8").catch(() => "")\<close>, so a missing
  file reads as the empty text.
\<close>

definition readStoreFile :: "disk \<Rightarrow> jstring \<Rightarrow> fileText" where
  "readStoreFile d p = (case d p of Some t \<Rightarrow> t | None \<Rightarrow> Blank)"

text \<open>
  The part of \<open>loadFromDisk\<close> that reads \<open>rawDb\<close>: \<open>None\<close> is an exception
  (\<open>JSON.parse\<close> rejecting the text, or property access on \<open>null\<close>).
\<close>

definition loadDb :: "fileText \<Rightarrow> (jstring \<times> RagChunk) list option" where
  "loadDb rawDb =
     (case rawDb of
        Blank \<Rightarrow> Some []
      | Malformed \<Rightarrow> None
      | Json JNull \<Rightarrow> None
      | Json parsedDb \<Rightarrow>
          (case (field ''version'' parsedDb, field ''chunks'' parsedDb) of
             (Some (JNum v), Some (JArr cs)) \<Rightarrow>
               if v = RAG_DB_VERSION then Some (foldl loadChunk [] cs) else Some []
           | _ \<Rightarrow> Some []))"

text \<open>
  \<open>Object.entries\<close> of the \<open>files\<close> value once it has passed
  \<open>parsedIndex.files && typeof parsedIndex.files === "object"\<close>: the entries of an
  object, and for an array its elements under their indices. \<open>None\<close> is a value that
  does not pass the test.
\<close>

definition objectEntries :: "json option \<Rightarrow> (jstring \<times> json) list option" where
  "objectEntries v =
     (case v of
        Some (JObj kvs) \<Rightarrow> Some kvs
      | Some (JArr vs) \<Rightarrow> Some (zip (map decimal [0..<length vs]) vs)
      | _ \<Rightarrow> None)"

definition loadIndex :: "fileText \<Rightarrow> ((jstring \<times> RagFileState) list \<times> real option) option" where
  "loadIndex rawIndex =
     (case rawIndex of
        Blank \<Rightarrow> Some ([], None)
      | Malformed \<Rightarrow> None
      | Json JNull \<Rightarrow> None
      | Json parsedIndex \<Rightarrow>
          (case (field ''version'' parsedIndex, objectEntries (field ''files'' parsedIndex)) of
             (Some (JNum v), Some files) \<Rightarrow>
               if v = RAG_INDEX_VERSION
               then Some (foldl loadState [] files,
                          (case field ''updatedAt'' parsedIndex of
                             Some (JNum u) \<Rightarrow> Some u | _ \<Rightarrow> None))
               else Some ([], None)
           | _ \<Rightarrow> Some ([], None)))"

definition loadFromDisk :: "disk \<Rightarrow> jstring \<Rightarrow> LoadResult" where
  "loadFromDisk d folder =
     (case loadDb (readStoreFile d (dbPath folder)) of
        None \<Rightarrow> \<lparr>lrChunks = [], lrFileStates = [], lrLastIndexedAt = None\<rparr>
      | Some cs \<Rightarrow>
          (case loadIndex (readStoreFile d (indexPath folder)) of
             None \<Rightarrow> \<lparr>lrChunks = [], lrFileStates = [], lrLastIndexedAt = None\<rparr>
           | Some (fs, stamp) \<Rightarrow> \<lparr>lrChunks = cs, lrFileStates = fs, lrLastIndexedAt = stamp\<rparr>))"

text \<open>The payloads of \<open>saveToDisk\<close>; \<open>now\<close> is the value of \<open>Date.now()\<close>.\<close>

definition dbPayload :: "(jstring \<times> RagChunk) list \<Rightarrow> json" where
  "dbPayload cs =
     JObj [(js ''version'', JNum RAG_DB_VERSION),
           (js ''chunks'', JArr (map (chunkToJson \<circ> snd) cs))]"

definition indexPayload :: "real \<Rightarrow> (jstring \<times> RagFileState) list \<Rightarrow> json" where
  "indexPayload now fs =
     JObj [(js ''version'', JNum RAG_INDEX_VERSION),
           (js ''updatedAt'', JNum now),
           (js ''files'', JObj (map (\<lambda>(p, st). (p, stateToJson st)) fs))]"

text \<open>
  \<open>mkdirResult\<close> and \<open>writeResult\<close> say, for a path, whether \<open>mkdir\<close> and
  \<open>writeFile\<close> reject there, and with what. When \<open>mkdir\<close> rejects nothing is written.
  The two \<open>writeFile\<close> calls run under \<open>Promise.all\<close>: each one that succeeds replaces
  its file, one that rejects leaves its file as it was, and the call rejects with the
  exception of the first of them that rejected, in the order of the array.
\<close>

definition saveToDisk ::
  "(jstring \<Rightarrow> js_error option) \<Rightarrow> (jstring \<Rightarrow> js_error option) \<Rightarrow> real \<Rightarrow> disk \<Rightarrow> jstring
     \<Rightarrow> (jstring \<times> RagChunk) list \<Rightarrow> (jstring \<times> RagFileState) list \<Rightarrow> js_error option \<times> disk" where
  "saveToDisk mkdirResult writeResult now d folder cs fs =
     (case mkdirResult (ragDir folder) of
        Some err \<Rightarrow> (Some err, d)
      | None \<Rightarrow>
          (let d1 = (if writeResult (dbPath folder) = None
                     then d(dbPath folder \<mapsto> Json (dbPayload cs)) else d);
               d2 = (if writeResult (indexPath folder) = None
                     then d1(indexPath folder \<mapsto> Json (indexPayload now fs)) else d1)
           in (case writeResult (dbPath folder) of
                 Some err \<Rightarrow> Some err
               | None \<Rightarrow> writeResult (indexPath folder),
               d2)))"

text \<open>\<open>getDbSizeBytes\<close>; \<open>byteSize\<close> gives the size in bytes of a stored text.\<close>

definition getDbSizeBytes :: "(fileText \<Rightarrow> nat) \<Rightarrow> disk \<Rightarrow> jstring \<Rightarrow> nat" where
  "getDbSizeBytes byteSize d folder =
     (case d (dbPath folder) of Some t \<Rightarrow> byteSize t | None \<Rightarrow> 0)"

text \<open>\<open>clearStorage\<close>: \<open>rm(ragDir, {recursive: true, force: true})\<close>.\<close>

definition clearStorage :: "disk \<Rightarrow> jstring \<Rightarrow> disk" where
  "clearStorage d folder =
     (\<lambda>p. if p = ragDir folder \<or> prefix (ragDir folder @ js ''/'') p then None else d p)"

section \<open>Vector primitives and the LSH index\<close>

text \<open>
  \<open>cosineSimilarity\<close> in exact arithmetic on reals: the rounding of doubles, a squared
  norm that underflows to zero and a sum that overflows are not modelled.
\<close>

definition cosineSimilarity :: "real list \<Rightarrow> real list \<Rightarrow> real" where
  "cosineSimilarity a b =
     (if length a = 0 \<or> length b = 0 \<or> length a \<noteq> length b then - 1
      else
        (let dot = sum_list (map2 (*) a b);
             normA = sum_list (map (\<lambda>x. x * x) a);
             normB = sum_list (map (\<lambda>x. x * x) b)
         in if normA = 0 \<or> normB = 0 then - 1 else dot / (sqrt normA * sqrt normB)))"

record LshOptions =
  projectionDim :: nat
  maxHammingDistance :: nat
  fallbackMinCandidates :: nat
  maxRerankCandidates :: nat

definition defaultLshOptions :: LshOptions where
  "defaultLshOptions =
     \<lparr>projectionDim = 16, maxHammingDistance = 3, fallbackMinCandidates = 32,
      maxRerankCandidates = 1200\<rparr>"

text \<open>
  The dot product of \<open>signatureForEmbedding\<close> runs over the indices of the embedding; a
  shorter row reads \<open>undefined\<close> there and the sum is \<open>NaN\<close>, for which \<open>dot >= 0\<close>
  is false. \<open>None\<close> stands for that \<open>NaN\<close>.
\<close>

definition rowDot :: "real list \<Rightarrow> real list \<Rightarrow> real option" where
  "rowDot embedding row =
     (if length row < length embedding then None else Some (sum_list (map2 (*) embedding row)))"

definition signatureForEmbedding :: "real list \<Rightarrow> real list list \<Rightarrow> jstring" where
  "signatureForEmbedding embedding proj =
     map (\<lambda>row. case rowDot embedding row of
                   Some dot \<Rightarrow> if dot \<ge> 0 then 0x31 else 0x30
                 | None \<Rightarrow> 0x30) proj"

definition MAX_SAFE_INTEGER :: nat where
  "MAX_SAFE_INTEGER = 9007199254740991"

definition hammingDistance :: "jstring \<Rightarrow> jstring \<Rightarrow> nat" where
  "hammingDistance a b =
     (if length a \<noteq> length b then MAX_SAFE_INTEGER
      else length (filter (\<lambda>(x, y). x \<noteq> y) (zip a b)))"

text \<open>\<open>flipSignatureBits\<close>, for indices inside the signature.\<close>

definition flipSignatureBits :: "jstring \<Rightarrow> nat list \<Rightarrow> jstring" where
  "flipSignatureBits signature indices =
     foldl (\<lambda>chars index. chars[index := (if chars ! index = 0x31 then 0x30 else 0x31)])
       signature indices"

text \<open>A JavaScript \<open>Set\<close> in insertion order: \<open>add\<close> leaves a present element where it is.\<close>

definition setAdd :: "'a \<Rightarrow> 'a list \<Rightarrow> 'a list" where
  "setAdd x xs = (if x \<in> set xs then xs else xs @ [x])"

definition buildNearbySignatures :: "jstring \<Rightarrow> nat \<Rightarrow> jstring list" where
  "buildNearbySignatures signature maxDistance =
     (let n = length signature;
          v0 = [signature];
          v1 = (if maxDistance \<ge> 1
                then foldl (\<lambda>v i. setAdd (flipSignatureBits signature [i]) v) v0 [0..<n]
                else v0);
          v2 = (if maxDistance \<ge> 2
                then foldl (\<lambda>v i. foldl (\<lambda>v j. setAdd (flipSignatureBits signature [i, j]) v) v
                                        [i + 1..<n]) v1 [0..<n]
                else v1)
      in v2)"

text \<open>
  \<open>LshIndex.build\<close>. \<open>createProjection\<close>, the Mulberry32-seeded matrix of
  \<open>dimensions\<close> columns and \<open>projectionDim\<close> rows, is a parameter.
\<close>

definition addToBucket ::
  "real list list \<Rightarrow> nat \<Rightarrow> (jstring \<times> jstring list) list \<Rightarrow> RagChunk \<Rightarrow> (jstring \<times> jstring list) list" where
  "addToBucket proj dims bs c =
     (if length (cEmbedding c) \<noteq> dims then bs
      else
        (let signature = signatureForEmbedding (cEmbedding c) proj in
         case map_of bs signature of
           Some existing \<Rightarrow> AList.update signature (existing @ [cId c]) bs
         | None \<Rightarrow> AList.update signature [cId c] bs))"

definition build ::
  "(nat \<Rightarrow> nat \<Rightarrow> real list list) \<Rightarrow> LshOptions \<Rightarrow> (jstring \<times> RagChunk) list \<Rightarrow> LshAnnIndex option" where
  "build createProjection opts cs =
     (case cs of
        [] \<Rightarrow> None
      | (_, firstChunk) # _ \<Rightarrow>
          if length (cEmbedding firstChunk) = 0 then None
          else
            (let dims = length (cEmbedding firstChunk);
                 proj = createProjection dims (projectionDim opts)
             in Some \<lparr>dimensions = dims, projection = proj,
                      buckets = foldl (addToBucket proj dims) [] (map snd cs)\<rparr>))"

text \<open>
  The candidate loop of \<open>LshIndex.query\<close>: \<open>addIds\<close> is the inner loop over one
  bucket, \<open>gatherIds\<close> the outer loop over the nearby signatures; both stop as soon as
  the set holds \<open>maxRerankCandidates\<close> ids.
\<close>

fun addIds :: "nat \<Rightarrow> jstring list \<Rightarrow> jstring list \<Rightarrow> jstring list" where
  "addIds limit acc [] = acc"
| "addIds limit acc (i # ids) =
     (let acc' = setAdd i acc in if length acc' \<ge> limit then acc' else addIds limit acc' ids)"

fun gatherIds ::
  "LshOptions \<Rightarrow> (jstring \<times> jstring list) list \<Rightarrow> jstring \<Rightarrow> jstring list \<Rightarrow> jstring list \<Rightarrow> jstring list" where
  "gatherIds opts bs querySignature acc [] = acc"
| "gatherIds opts bs querySignature acc (candidateSignature # rest) =
     (if hammingDistance querySignature candidateSignature > maxHammingDistance opts
      then gatherIds opts bs querySignature acc rest
      else
        (case map_of bs candidateSignature of
           None \<Rightarrow> gatherIds opts bs querySignature acc rest
         | Some ids \<Rightarrow>
             (let acc' = addIds (maxRerankCandidates opts) acc ids
              in if length acc' \<ge> maxRerankCandidates opts then acc'
                 else gatherIds opts bs querySignature acc' rest)))"

definition candidatesById :: "LshOptions \<Rightarrow> LshAnnIndex \<Rightarrow> real list \<Rightarrow> jstring list" where
  "candidatesById opts idx queryEmbedding =
     (let querySignature = signatureForEmbedding queryEmbedding (projection idx);
          nearby = buildNearbySignatures querySignature (maxHammingDistance opts)
      in gatherIds opts (buckets idx) querySignature [] nearby)"

text \<open>\<open>LshIndex.query\<close>; \<open>None\<close> is the source's \<open>null\<close>.\<close>

definition query ::
  "LshOptions \<Rightarrow> LshAnnIndex \<Rightarrow> real list \<Rightarrow> (jstring \<times> RagChunk) list \<Rightarrow> RagChunk list option" where
  "query opts idx queryEmbedding cs =
     (if dimensions idx \<noteq> length queryEmbedding then None
      else
        (let cands = candidatesById opts idx queryEmbedding in
         if length cands < fallbackMinCandidates opts then None
         else Some (concat (map (\<lambda>i. case map_of cs i of Some c \<Rightarrow> [c] | None \<Rightarrow> []) cands))))"

section \<open>LRU cache\<close>

text \<open>
  \<open>LruCache\<close>: the entries in insertion order, each with its \<open>createdAt\<close>. Every
  operation takes the value of \<open>Date.now()\<close>.
\<close>

record 'v LruCache =
  entries :: "(jstring \<times> ('v \<times> real)) list"
  maxEntries :: nat
  ttlMs :: real

definition lruGet :: "real \<Rightarrow> jstring \<Rightarrow> 'v LruCache \<Rightarrow> 'v option \<times> 'v LruCache" where
  "lruGet now key c =
     (case map_of (entries c) key of
        None \<Rightarrow> (None, c)
      | Some (v, createdAt) \<Rightarrow>
          if ttlMs c > 0 \<and> now - createdAt > ttlMs c
          then (None, c\<lparr>entries := AList.delete key (entries c)\<rparr>)
          else (Some v, c))"

definition evict :: "'v LruCache \<Rightarrow> 'v LruCache" where
  "evict c =
     (if length (entries c) \<le> maxEntries c then c
      else
        (let sorted = sort_key (\<lambda>e. snd (snd e)) (entries c);
             toRemove = length (entries c) - maxEntries c
         in c\<lparr>entries := foldl (\<lambda>es k. AList.delete k es) (entries c)
                              (map fst (take toRemove sorted))\<rparr>))"

definition lruSet :: "real \<Rightarrow> jstring \<Rightarrow> 'v \<Rightarrow> 'v LruCache \<Rightarrow> 'v LruCache" where
  "lruSet now key v c = evict (c\<lparr>entries := AList.update key (v, now) (entries c)\<rparr>)"

section \<open>Indexer\<close>

text \<open>
  The collaborators of the indexer and of the searcher, and the clock. The clock counts
  the suspension points (\<open>await\<close>) a call has passed; a stateful provider is a function
  of it. \<open>abortAt = Some n\<close> says that the \<open>AbortSignal\<close> is aborted from suspension
  point \<open>n\<close> on, \<open>None\<close> that it never is (or that no signal was given);
  \<open>abortReason\<close> is \<open>signal.reason\<close>. \<open>chunkFile content relativePath\<close> is
  \<open>codeChunker.chunk(content, {fileExtension: extname(relativePath).toLowerCase()})\<close>.
  \<open>onProgress\<close> callbacks are left out. \<open>schedule t\<close> selects, among the workers of
  \<open>runWithConcurrency\<close> that have not returned, the one whose \<open>await\<close> completes at
  suspension point \<open>t\<close>. \<open>mkdir t path\<close> and \<open>writeFile t path\<close> are the exceptions
  with which these calls reject at clock \<open>t\<close>, \<open>None\<close> when they succeed.
\<close>

record Env =
  scanDirectory :: "jstring \<Rightarrow> js_error + CandidateFile list"
  readFile :: "jstring \<Rightarrow> js_error + jstring"
  computeContentHash :: "jstring \<Rightarrow> jstring"
  chunkFile :: "jstring \<Rightarrow> jstring \<Rightarrow> ChunkResult list"
  embed :: "nat \<Rightarrow> jstring list \<Rightarrow> js_error + real list list"
  abortAt :: "nat option"
  abortReason :: "js_error option"
  dateNow :: "nat \<Rightarrow> real"
  byteSize :: "fileText \<Rightarrow> nat"
  createProjection :: "nat \<Rightarrow> nat \<Rightarrow> real list list"
  toLowerCase :: "jstring \<Rightarrow> jstring"
  schedule :: "nat \<Rightarrow> nat"
  mkdir :: "nat \<Rightarrow> jstring \<Rightarrow> js_error option"
  writeFile :: "nat \<Rightarrow> jstring \<Rightarrow> js_error option"

record IndexOptions =
  outputFolder :: "jstring option"
  concurrency :: "nat option"
  embedBatchSize :: "nat option"

definition FILE_EMBED_CONCURRENCY :: nat where "FILE_EMBED_CONCURRENCY = 2"
definition EMBED_BATCH_SIZE :: nat where "EMBED_BATCH_SIZE = 16"
definition TOP_K :: nat where "TOP_K = 6"
definition QUERY_CACHE_TTL_MS :: real where "QUERY_CACHE_TTL_MS = 10 * 60 * 1000"
definition QUERY_EMBED_CACHE_MAX :: nat where "QUERY_EMBED_CACHE_MAX = 128"
definition QUERY_RESULT_CACHE_MAX :: nat where "QUERY_RESULT_CACHE_MAX = 64"
definition QUERY_RESULT_CACHE_TOP_K :: nat where "QUERY_RESULT_CACHE_TOP_K = 24"

text \<open>\<open>path.replace(/\\\\/g, "/").replace(/\\/+$/, "")\<close>\<close>

definition normalizeFolderPath :: "jstring \<Rightarrow> jstring" where
  "normalizeFolderPath path =
     rev (dropWhile (\<lambda>c. c = 0x2F) (rev (map (\<lambda>c. if c = 0x5C then 0x2F else c) path)))"

text \<open>The chunk id \<open>`${file.relativePath}::${i}`\<close>.\<close>

definition chunkIdFor :: "jstring \<Rightarrow> nat \<Rightarrow> jstring" where
  "chunkIdFor path i = path @ js ''::'' @ decimal i"

definition aborted :: "Env \<Rightarrow> nat \<Rightarrow> bool" where
  "aborted env t = (case abortAt env of None \<Rightarrow> False | Some n \<Rightarrow> n \<le> t)"

text \<open>\<open>signal.reason ?? new DOMException("Aborted", "AbortError")\<close>\<close>

definition abortError :: "Env \<Rightarrow> js_error" where
  "abortError env =
     (case abortReason env of Some r \<Rightarrow> r | None \<Rightarrow> DOMException (js ''AbortError'') (js ''Aborted''))"

text \<open>\<open>err instanceof DOMException && err.name === "AbortError"\<close>\<close>

definition isAbortError :: "js_error \<Rightarrow> bool" where
  "isAbortError err = (case err of DOMException name _ \<Rightarrow> name = js ''AbortError'' | _ \<Rightarrow> False)"

definition rebuildAnnIndex :: "Env \<Rightarrow> FolderCache \<Rightarrow> FolderCache" where
  "rebuildAnnIndex env cache =
     cache\<lparr>annIndex := build (createProjection env) defaultLshOptions (chunks cache)\<rparr>"

text \<open>
  \<open>ensurePersistedLoaded\<close>. The calls pass \<open>cache.storagePath\<close> as a further argument
  to \<open>loadFromDisk\<close> and \<open>getDbSizeBytes\<close>, which have no parameter for it.
  \<open>loadFromDisk\<close> catches its own exceptions, so the \<open>catch\<close> branch is never taken.
\<close>

definition ensurePersistedLoaded :: "Env \<Rightarrow> disk \<Rightarrow> FolderCache \<times> nat \<Rightarrow> FolderCache \<times> nat" where
  "ensurePersistedLoaded env d w =
     (let cache = fst w; t = snd w in
      if persistedLoaded cache then (cache, t)
      else
        (let loaded = loadFromDisk d (folderPath cache);
             st = (status cache)\<lparr>
                    lastIndexedAt :=
                      (case lrLastIndexedAt loaded of
                         Some u \<Rightarrow> if u \<noteq> 0 then Some u else lastIndexedAt (status cache)
                       | None \<Rightarrow> lastIndexedAt (status cache)),
                    totalChunks := length (lrChunks loaded),
                    dbSizeBytes := getDbSizeBytes (byteSize env) d (folderPath cache)\<rparr>
         in (rebuildAnnIndex env
               (cache\<lparr>chunks := lrChunks loaded, fileStates := lrFileStates loaded,
                      status := st, persistedLoaded := True\<rparr>),
             t + 2)))"

text \<open>\<open>for (const chunkId of state.chunkIds) cache.chunks.delete(chunkId)\<close>\<close>

definition removeChunks :: "jstring list \<Rightarrow> (jstring \<times> RagChunk) list \<Rightarrow> (jstring \<times> RagChunk) list" where
  "removeChunks ids cs = foldl (\<lambda>m chunkId. AList.delete chunkId m) cs ids"

text \<open>
  The deletion pass, over the snapshot \<open>Array.from(cache.fileStates.keys())\<close>; the
  boolean is \<open>changedIndex\<close>.
\<close>

fun removeDeleted :: "jstring list \<Rightarrow> jstring list \<Rightarrow> FolderCache \<times> bool \<Rightarrow> FolderCache \<times> bool" where
  "removeDeleted [] currentFiles w = w"
| "removeDeleted (existingFilePath # rest) currentFiles (cache, changedIndex) =
     (if existingFilePath \<notin> set currentFiles then
        removeDeleted rest currentFiles
          (cache\<lparr>chunks := (case map_of (fileStates cache) existingFilePath of
                               Some state \<Rightarrow> removeChunks (sChunkIds state) (chunks cache)
                             | None \<Rightarrow> chunks cache),
                  fileStates := AList.delete existingFilePath (fileStates cache)\<rparr>,
           True)
      else removeDeleted rest currentFiles (cache, changedIndex))"

text \<open>The metadata test of the change detection loop.\<close>

definition unchangedMeta :: "FolderCache \<Rightarrow> CandidateFile \<Rightarrow> bool" where
  "unchangedMeta cache file =
     (case map_of (fileStates cache) (relativePath file) of
        Some previous \<Rightarrow> sModifiedAt previous = fModifiedAt file \<and> sSize previous = fSize file
      | None \<Rightarrow> False)"

text \<open>
  The content-hash loop over \<open>changedFiles\<close>. The state is the cache, the list
  \<open>filesToProcess\<close> and the clock; the first component of the result is the exception
  thrown by \<open>readFile\<close>, if any.
\<close>

type_synonym fileToProcess = "CandidateFile \<times> jstring \<times> jstring"

fun hashCheck ::
  "Env \<Rightarrow> CandidateFile list \<Rightarrow> FolderCache \<times> fileToProcess list \<times> nat
     \<Rightarrow> js_error option \<times> FolderCache \<times> fileToProcess list \<times> nat" where
  "hashCheck env [] w = (None, w)"
| "hashCheck env (file # rest) (cache, filesToProcess, t) =
     (case readFile env (fullPath file) of
        Inl err \<Rightarrow> (Some err, cache, filesToProcess, t + 1)
      | Inr content \<Rightarrow>
          (let contentHash = computeContentHash env content in
           case map_of (fileStates cache) (relativePath file) of
             Some previous \<Rightarrow>
               if sContentHash previous \<noteq> [] \<and> sContentHash previous = contentHash then
                 hashCheck env rest
                   (cache\<lparr>fileStates :=
                            AList.update (relativePath file)
                              (previous\<lparr>sModifiedAt := fModifiedAt file, sSize := fSize file\<rparr>)
                              (fileStates cache),
                          status := (status cache)\<lparr>skippedUnchanged :=
                                                     skippedUnchanged (status cache) + 1\<rparr>\<rparr>,
                    filesToProcess, t + 1)
               else hashCheck env rest (cache, filesToProcess @ [(file, content, contentHash)], t + 1)
           | None \<Rightarrow>
               hashCheck env rest (cache, filesToProcess @ [(file, content, contentHash)], t + 1)))"

text \<open>
  The second half of the worker, which runs without suspension once the vectors are
  there: drop the previous chunks of the file, insert the new ones, write the file state.
  \<open>vectors[i]\<close> is \<open>undefined\<close> beyond the end of \<open>vectors\<close>, and the chunk is skipped.
\<close>

definition insertChunk ::
  "CandidateFile \<Rightarrow> jstring list \<Rightarrow> ChunkResult list \<Rightarrow> real list list
     \<Rightarrow> jstring list \<times> (jstring \<times> RagChunk) list \<Rightarrow> nat
     \<Rightarrow> jstring list \<times> (jstring \<times> RagChunk) list" where
  "insertChunk file texts chunkResults vectors acc i =
     (if i < length vectors then
        (let chunkId = chunkIdFor (relativePath file) i in
         (fst acc @ [chunkId],
          AList.update chunkId
            \<lparr>cId = chunkId, cFilePath = relativePath file, cModifiedAt = fModifiedAt file,
             cContent = texts ! i, cEmbedding = vectors ! i,
             cSymbols = rSymbols (chunkResults ! i)\<rparr>
            (snd acc)))
      else acc)"

definition upsertFile ::
  "CandidateFile \<Rightarrow> jstring \<Rightarrow> ChunkResult list \<Rightarrow> real list list \<Rightarrow> FolderCache \<Rightarrow> FolderCache" where
  "upsertFile file contentHash chunkResults vectors cache =
     (let texts = map rContent chunkResults;
          cleared = (case map_of (fileStates cache) (relativePath file) of
                       Some previousState \<Rightarrow> removeChunks (sChunkIds previousState) (chunks cache)
                     | None \<Rightarrow> chunks cache);
          inserted = foldl (insertChunk file texts chunkResults vectors) ([], cleared)
                       [0..<length texts];
          st = (status cache)\<lparr>embeddedFiles := embeddedFiles (status cache) + 1,
                               totalChunks := length (snd inserted)\<rparr>
      in cache\<lparr>chunks := snd inserted,
               fileStates := AList.update (relativePath file)
                               \<lparr>sModifiedAt = fModifiedAt file, sSize = fSize file,
                                sContentHash = contentHash, sChunkIds = fst inserted\<rparr>
                               (fileStates cache),
               status := st\<lparr>message := Some (js ''Embedding '' @ decimal (embeddedFiles st)
                                  @ js ''/'' @ decimal (filesToEmbed st) @ js '' files...'')\<rparr>\<rparr>)"

text \<open>
  The workers of \<open>runWithConcurrency\<close>. A worker is suspended at one of three \<open>await\<close>s:
  in \<open>codeChunker.chunk\<close> for a file; in \<open>this.embed\<close> for the batch at index \<open>i\<close> of
  the texts of a file, with the vectors collected so far; or in
  \<open>await worker(items[current], current)\<close>, when the function given to
  \<open>runWithConcurrency\<close> has returned. \<open>WDone\<close> is a worker whose \<open>runWorker\<close> has
  returned.
\<close>

datatype workerState =
    WChunk fileToProcess
  | WEmbed fileToProcess "ChunkResult list" nat "real list list"
  | WNext
  | WDone

text \<open>
  The head of the loop of \<open>runWorker\<close> and the first statements of the function given to
  \<open>runWithConcurrency\<close>, up to its first \<open>await\<close>: test the signal, take the next index,
  return when no item is left, test the signal again and call the chunker.
\<close>

definition takeNext ::
  "Env \<Rightarrow> fileToProcess list \<Rightarrow> nat \<Rightarrow> nat \<Rightarrow> js_error + workerState \<times> nat" where
  "takeNext env items nextIndex t =
     (if aborted env t then Inl (abortError env)
      else if nextIndex \<ge> length items then Inr (WDone, nextIndex + 1)
      else if aborted env t then Inl (abortError env)
      else Inr (WChunk (items ! nextIndex), nextIndex + 1))"

text \<open>
  The embedding loop \<open>for (let i = 0; i < texts.length; i += batchSize)\<close> from the test
  of \<open>i\<close> on, up to the next \<open>await\<close>. When the loop is left, the rest of the function
  runs without suspension. With \<open>batchSize = 0\<close> the loop is only left when the signal
  aborts or the provider throws.
\<close>

definition embedFrom ::
  "Env \<Rightarrow> fileToProcess \<Rightarrow> ChunkResult list \<Rightarrow> nat \<Rightarrow> real list list \<Rightarrow> FolderCache \<Rightarrow> nat
     \<Rightarrow> js_error + workerState \<times> FolderCache" where
  "embedFrom env item chunkResults i vectors cache t =
     (if i < length (map rContent chunkResults) then
        (if aborted env t then Inl (abortError env)
         else Inr (WEmbed item chunkResults i vectors, cache))
      else Inr (WNext, upsertFile (fst item) (snd (snd item)) chunkResults vectors cache))"

text \<open>
  A worker runs on from the \<open>await\<close> it is suspended at, which completes at clock \<open>t\<close>,
  to its next \<open>await\<close>, to its return, or to an exception (\<open>Inl\<close>). \<open>nextIndex\<close> is the
  counter shared by the workers.
\<close>

definition resume ::
  "Env \<Rightarrow> nat \<Rightarrow> fileToProcess list \<Rightarrow> workerState \<Rightarrow> FolderCache \<Rightarrow> nat \<Rightarrow> nat
     \<Rightarrow> js_error + workerState \<times> FolderCache \<times> nat" where
  "resume env batchSize items ws cache nextIndex t =
     (case ws of
        WChunk item \<Rightarrow>
          (case embedFrom env item (chunkFile env (fst (snd item)) (relativePath (fst item)))
                  0 [] cache t of
             Inl err \<Rightarrow> Inl err
           | Inr (ws', cache') \<Rightarrow> Inr (ws', cache', nextIndex))
      | WEmbed item chunkResults i vectors \<Rightarrow>
          (case embed env t (sliceList (map rContent chunkResults) i (i + batchSize)) of
             Inl err \<Rightarrow> Inl err
           | Inr embedded \<Rightarrow>
               (case embedFrom env item chunkResults (i + batchSize) (vectors @ embedded)
                       cache t of
                  Inl err \<Rightarrow> Inl err
                | Inr (ws', cache') \<Rightarrow> Inr (ws', cache', nextIndex)))
      | WNext \<Rightarrow>
          (case takeNext env items nextIndex t of
             Inl err \<Rightarrow> Inl err
           | Inr (ws', nextIndex') \<Rightarrow> Inr (ws', cache, nextIndex'))
      | WDone \<Rightarrow> Inr (WDone, cache, nextIndex))"

text \<open>The file a suspended worker works on.\<close>

definition workerItem :: "workerState \<Rightarrow> fileToProcess option" where
  "workerItem ws = (case ws of WChunk item \<Rightarrow> Some item
                    | WEmbed item _ _ _ \<Rightarrow> Some item
                    | _ \<Rightarrow> None)"

definition activeWorkers :: "workerState list \<Rightarrow> nat list" where
  "activeWorkers workers = filter (\<lambda>k. workers ! k \<noteq> WDone) [0..<length workers]"

text \<open>
  \<open>await Promise.all(...)\<close> over the workers. At each suspension point the worker that
  \<open>schedule\<close> selects runs on. \<open>Promise.all\<close> resolves when every worker has returned and
  rejects with the first exception of a worker. The result is the cache and the clock at
  that point: the workers that are still suspended when \<open>Promise.all\<close> rejects run on
  after \<open>index\<close> has returned, where they may still replace chunks and file states of
  the cache (they write neither \<open>indexRevision\<close> nor the store); this is not followed
  here. \<open>None\<close> is a pool that never settles.
\<close>

partial_function (option) runPool ::
  "Env \<Rightarrow> nat \<Rightarrow> fileToProcess list \<Rightarrow> workerState list \<Rightarrow> nat \<Rightarrow> FolderCache \<Rightarrow> nat
     \<Rightarrow> (js_error option \<times> FolderCache \<times> nat) option" where
  "runPool env batchSize items workers nextIndex cache t =
     (if activeWorkers workers = [] then Some (None, cache, t)
      else
        (let k = activeWorkers workers ! (schedule env t mod length (activeWorkers workers)) in
         case resume env batchSize items (workers ! k) cache nextIndex (t + 1) of
           Inl err \<Rightarrow> Some (Some err, cache, t + 1)
         | Inr (ws', cache', nextIndex') \<Rightarrow>
             runPool env batchSize items (workers[k := ws']) nextIndex' cache' (t + 1)))"

text \<open>
  \<open>runWithConcurrency\<close>. \<open>Array.from({length: n}, () => runWorker())\<close> starts the \<open>n\<close>
  workers one after the other, each up to its first \<open>await\<close> and with no suspension
  between them: when the signal is aborted then, the first worker throws; otherwise
  worker \<open>k\<close> takes item \<open>k\<close> and is suspended in the chunker.
\<close>

definition runWithConcurrency ::
  "Env \<Rightarrow> nat \<Rightarrow> nat \<Rightarrow> fileToProcess list \<Rightarrow> FolderCache \<times> nat
     \<Rightarrow> (js_error option \<times> FolderCache \<times> nat) option" where
  "runWithConcurrency env concurrencyLimit batchSize items w =
     (if items = [] then Some (None, w)
      else
        (let limit = max 1 concurrencyLimit; n = min limit (length items) in
         if aborted env (snd w) then Some (Some (abortError env), w)
         else runPool env batchSize items (map (\<lambda>k. WChunk (items ! k)) [0..<n]) n
                (fst w) (snd w)))"

text \<open>
  The statements of the \<open>try\<close> block after \<open>runWithConcurrency\<close> has returned. The
  first component of the result is the exception with which \<open>saveToDisk\<close> rejects, if
  it does: \<open>indexRevision\<close> has been incremented by then.
\<close>

definition finishIndex ::
  "Env \<Rightarrow> bool \<Rightarrow> FolderCache \<times> disk \<times> nat \<Rightarrow> js_error option \<times> FolderCache \<times> disk \<times> nat" where
  "finishIndex env changedIndex w =
     (let cache = fst w; d = fst (snd w); t = snd (snd w);
          ready = cache\<lparr>status := (status cache)\<lparr>
                    phase := Ready,
                    totalChunks := length (chunks cache),
                    lastIndexedAt := Some (dateNow env t),
                    fileChangeDrift := 0, driftAddedFiles := 0,
                    driftModifiedFiles := 0, driftDeletedFiles := 0,
                    driftCheckedAt := Some (dateNow env t),
                    message := Some (js ''RAG index is ready'')\<rparr>\<rparr>;
          bumped = (rebuildAnnIndex env ready)\<lparr>indexRevision := indexRevision ready + 1\<rparr>;
          saved = saveToDisk (mkdir env t) (writeFile env t) (dateNow env t) d
                    (folderPath ready) (chunks ready) (fileStates ready)
      in if changedIndex then
           (case fst saved of
              Some err \<Rightarrow> (Some err, bumped, snd saved, t + 1)
            | None \<Rightarrow>
                (None,
                 bumped\<lparr>status := (status bumped)\<lparr>dbSizeBytes :=
                           getDbSizeBytes (byteSize env) (snd saved) (folderPath bumped)\<rparr>\<rparr>,
                 snd saved, t + 2))
         else
           (None,
            ready\<lparr>status := (status ready)\<lparr>dbSizeBytes :=
                     getDbSizeBytes (byteSize env) d (folderPath ready)\<rparr>\<rparr>,
            d, t + 1))"

text \<open>
  The statements between the scan and the first \<open>readFile\<close>, which run without
  suspension: the status update, the deletion pass and the metadata test. The result is
  the cache, \<open>changedIndex\<close> and \<open>changedFiles\<close>.
\<close>

definition detectChanges ::
  "CandidateFile list \<Rightarrow> FolderCache \<Rightarrow> FolderCache \<times> bool \<times> CandidateFile list" where
  "detectChanges candidates cache0 =
     (let currentFiles = map relativePath candidates;
          cache1 = cache0\<lparr>status := (status cache0)\<lparr>
                     totalFiles := length candidates, filesToEmbed := 0,
                     skippedUnchanged := 0, phase := Embedding,
                     message := Some (js ''Preparing embeddings...'')\<rparr>\<rparr>;
          removed = removeDeleted (map fst (fileStates cache1)) currentFiles (cache1, False);
          cache2 = fst removed;
          changedFiles = filter (\<lambda>file. \<not> unchangedMeta cache2 file) candidates;
          cache3 = cache2\<lparr>status := (status cache2)\<lparr>skippedUnchanged :=
                     length (filter (unchangedMeta cache2) candidates)\<rparr>\<rparr>
      in (cache3, snd removed, changedFiles))"

text \<open>
  The \<open>try\<close> block of \<open>index\<close>. The result is the exception that leaves the block
  (\<open>None\<close> when it runs to its \<open>return\<close>), with the cache, the disk and the clock at that
  point; the outer \<open>None\<close> is a run that does not end.
\<close>

definition indexBody ::
  "Env \<Rightarrow> nat \<Rightarrow> nat \<Rightarrow> FolderCache \<times> disk \<times> nat
     \<Rightarrow> (js_error option \<times> FolderCache \<times> disk \<times> nat) option" where
  "indexBody env concurrencyLimit batchSize w =
     (let d = fst (snd w);
          loaded = ensurePersistedLoaded env d (fst w, snd (snd w));
          cache0 = fst loaded; t0 = snd loaded in
      case scanDirectory env (folderPath cache0) of
        Inl err \<Rightarrow> Some (Some err, cache0, d, t0 + 1)
      | Inr candidates \<Rightarrow>
          if aborted env (t0 + 1) then Some (Some (abortError env), cache0, d, t0 + 1)
          else
            (case detectChanges candidates cache0 of
               (cache3, removedAny, changedFiles) \<Rightarrow>
                 (case hashCheck env changedFiles (cache3, [], t0 + 1) of
                    (Some err, cache4, _, t4) \<Rightarrow> Some (Some err, cache4, d, t4)
                  | (None, cache4, filesToProcess, t4) \<Rightarrow>
                      (let cache5 = cache4\<lparr>status := (status cache4)\<lparr>
                                      filesToEmbed := length filesToProcess,
                                      embeddedFiles := 0\<rparr>\<rparr>;
                           changedIndex = (removedAny \<or> length filesToProcess > 0)
                       in case runWithConcurrency env concurrencyLimit batchSize filesToProcess
                                 (cache5, t4) of
                            None \<Rightarrow> None
                          | Some (Some err, cache6, t6) \<Rightarrow> Some (Some err, cache6, d, t6)
                          | Some (None, cache6, t6) \<Rightarrow>
                              Some (finishIndex env changedIndex (cache6, d, t6))))))"

text \<open>The \<open>catch\<close> clause of \<open>index\<close>.\<close>

definition catchIndex :: "js_error \<Rightarrow> FolderCache \<Rightarrow> FolderCache" where
  "catchIndex err cache =
     (if isAbortError err
      then cache\<lparr>status := (status cache)\<lparr>phase := Idle,
                              message := Some (js ''Indexing was cancelled'')\<rparr>\<rparr>
      else cache\<lparr>status := (status cache)\<lparr>phase := Failed,
                              message := Some (case err of
                                                 DOMException _ msg \<Rightarrow> msg
                                               | Error msg \<Rightarrow> msg
                                               | Thrown \<Rightarrow> js ''Failed to build RAG index'')\<rparr>\<rparr>)"

text \<open>
  \<open>index\<close> on the folder's cache, from the statements that apply the options on. The
  first component of the result is the exception the \<open>catch\<close> clause received, if any.
  The call passes \<open>cache.storagePath\<close> to \<open>saveToDisk\<close> and \<open>getDbSizeBytes\<close> as a
  further argument, for which they have no parameter.
\<close>

definition indexCache ::
  "Env \<Rightarrow> IndexOptions \<Rightarrow> FolderCache \<times> disk \<times> nat
     \<Rightarrow> (js_error option \<times> FolderCache \<times> disk \<times> nat) option" where
  "indexCache env options w =
     (let cache = fst w;
          configured = cache\<lparr>
            configEnabled := True,
            storagePath := (case outputFolder options of
                              Some out \<Rightarrow> if out \<noteq> [] then Some (normalizeFolderPath out)
                                          else storagePath cache
                            | None \<Rightarrow> storagePath cache),
            status := (status cache)\<lparr>enabled := True, phase := Scanning,
                                     message := Some (js ''Scanning files...'')\<rparr>\<rparr>;
          concurrencyLimit = (case concurrency options of
                                Some n \<Rightarrow> n | None \<Rightarrow> FILE_EMBED_CONCURRENCY);
          batchSize = (case embedBatchSize options of Some b \<Rightarrow> b | None \<Rightarrow> EMBED_BATCH_SIZE)
      in case indexBody env concurrencyLimit batchSize (configured, snd w) of
           None \<Rightarrow> None
         | Some (None, cache', d', t') \<Rightarrow> Some (None, cache', d', t')
         | Some (Some err, cache', d', t') \<Rightarrow> Some (Some err, catchIndex err cache', d', t'))"

text \<open>The indexer with the disk it works on and the clock.\<close>

record World =
  wCaches :: "(jstring \<times> FolderCache) list"
  wDisk :: disk
  wClock :: nat

definition initialStatus :: RagStatus where
  "initialStatus =
     \<lparr>enabled = False, phase = Idle, totalFiles = 0, filesToEmbed = 0, embeddedFiles = 0,
      skippedUnchanged = 0, totalChunks = 0, dbSizeBytes = 0, lastIndexedAt = None,
      fileChangeDrift = 0, driftAddedFiles = 0, driftModifiedFiles = 0, driftDeletedFiles = 0,
      driftCheckedAt = None, message = None\<rparr>"

definition newCache :: "jstring \<Rightarrow> FolderCache" where
  "newCache folder =
     \<lparr>folderPath = folder, storagePath = None, configEnabled = False, status = initialStatus,
      chunks = [], fileStates = [], persistedLoaded = False, indexRevision = 0,
      annIndex = None\<rparr>"

definition ensureCache :: "jstring \<Rightarrow> World \<Rightarrow> FolderCache \<times> World" where
  "ensureCache folderPathInput w =
     (let folder = normalizeFolderPath folderPathInput in
      case map_of (wCaches w) folder of
        Some existing \<Rightarrow> (existing, w)
      | None \<Rightarrow> (newCache folder,
                 w\<lparr>wCaches := AList.update folder (newCache folder) (wCaches w)\<rparr>))"

text \<open>\<open>CodebaseIndexer.index\<close>; the result is the returned status and the world after it.\<close>

definition index :: "Env \<Rightarrow> jstring \<Rightarrow> IndexOptions \<Rightarrow> World \<Rightarrow> (RagStatus \<times> World) option" where
  "index env folderPathInput options w =
     (let ensured = ensureCache folderPathInput w; cache = fst ensured; w1 = snd ensured in
      case indexCache env options (cache, wDisk w1, wClock w1) of
        None \<Rightarrow> None
      | Some (_, cache', d', t') \<Rightarrow>
          Some (status cache',
                w1\<lparr>wCaches := AList.update (normalizeFolderPath folderPathInput) cache'
                                (wCaches w1),
                   wDisk := d', wClock := t'\<rparr>))"

text \<open>\<open>CodebaseIndexer.clearFolder\<close>; \<open>clearStorage\<close> has no parameter for \<open>storagePath\<close>.\<close>

definition clearFolder :: "jstring \<Rightarrow> World \<Rightarrow> World" where
  "clearFolder folderPathInput w =
     (let normalized = normalizeFolderPath folderPathInput in
      w\<lparr>wCaches := AList.delete normalized (wCaches w),
        wDisk := clearStorage (wDisk w) normalized, wClock := wClock w + 1\<rparr>)"

text \<open>\<open>CodebaseIndexer.ensureLoaded\<close>, as the searcher calls it (without \<open>storagePath\<close>).\<close>

definition ensureLoaded :: "Env \<Rightarrow> jstring \<Rightarrow> World \<Rightarrow> FolderCache \<times> World" where
  "ensureLoaded env folderPathInput w =
     (let ensured = ensureCache folderPathInput w; w1 = snd ensured;
          loaded = ensurePersistedLoaded env (wDisk w1) (fst ensured, wClock w1)
      in (fst loaded,
          w1\<lparr>wCaches := AList.update (normalizeFolderPath folderPathInput) (fst loaded)
                          (wCaches w1),
             wClock := snd loaded\<rparr>))"

section \<open>Searcher\<close>

record CachedRanking =
  rkChunkIds :: "jstring list"
  rkScores :: "real list"
  rkRevision :: nat

record Searcher =
  embeddingCache :: "real list LruCache"
  resultCache :: "CachedRanking LruCache"

definition newSearcher :: Searcher where
  "newSearcher =
     \<lparr>embeddingCache = \<lparr>entries = [], maxEntries = QUERY_EMBED_CACHE_MAX, ttlMs = QUERY_CACHE_TTL_MS\<rparr>,
      resultCache = \<lparr>entries = [], maxEntries = QUERY_RESULT_CACHE_MAX, ttlMs = QUERY_CACHE_TTL_MS\<rparr>\<rparr>"

text \<open>\<open>value.replace(/\\s+/g, " ")\<close>: every run of whitespace becomes one space.\<close>

fun replaceRuns :: "bool \<Rightarrow> jstring \<Rightarrow> jstring" where
  "replaceRuns inRun [] = []"
| "replaceRuns inRun (c # s) =
     (if isWhitespace c then (if inRun then replaceRuns True s else 0x20 # replaceRuns True s)
      else c # replaceRuns False s)"

definition collapseWhitespace :: "jstring \<Rightarrow> jstring" where
  "collapseWhitespace s = replaceRuns False s"

definition normalizeQuery :: "Env \<Rightarrow> jstring \<Rightarrow> jstring" where
  "normalizeQuery env v = toLowerCase env (collapseWhitespace (trim v))"

record RankedChunk =
  rChunk :: RagChunk
  rScore :: real

text \<open>
  \<open>getQueryEmbedding\<close>; the result is the exception of the provider or the embedding
  (\<open>None\<close> for \<open>undefined\<close>), with the searcher and the clock after the call.
\<close>

definition getQueryEmbedding ::
  "Env \<Rightarrow> jstring \<Rightarrow> jstring \<Rightarrow> Searcher \<times> nat \<Rightarrow> (js_error + real list option) \<times> Searcher \<times> nat" where
  "getQueryEmbedding env queryKey q w =
     (let s = fst w; t = snd w;
          got = lruGet (dateNow env t) queryKey (embeddingCache s);
          s1 = s\<lparr>embeddingCache := snd got\<rparr>
      in case fst got of
           Some cached \<Rightarrow> (Inr (Some cached), s1, t)
         | None \<Rightarrow>
             (case embed env t [q] of
                Inl err \<Rightarrow> (Inl err, s1, t + 1)
              | Inr [] \<Rightarrow> (Inr None, s1, t + 1)
              | Inr (embedded # _) \<Rightarrow>
                  (Inr (Some embedded),
                   s1\<lparr>embeddingCache :=
                        lruSet (dateNow env (t + 1)) queryKey embedded (embeddingCache s1)\<rparr>,
                   t + 1)))"

text \<open>The pool that is ranked: the candidates of the ANN index, or all chunks.\<close>

definition searchPool :: "FolderCache \<Rightarrow> real list \<Rightarrow> RagChunk list" where
  "searchPool cache queryEmbedding =
     (case (case annIndex cache of
              Some idx \<Rightarrow> query defaultLshOptions idx queryEmbedding (chunks cache)
            | None \<Rightarrow> None) of
        Some annCandidates \<Rightarrow> annCandidates
      | None \<Rightarrow> map snd (chunks cache))"

text \<open>The ranking of the pool, cut to \<open>cacheTopK\<close> entries; the sort is stable.\<close>

definition rankPool :: "RagChunk list \<Rightarrow> real list \<Rightarrow> nat \<Rightarrow> RankedChunk list" where
  "rankPool pool queryEmbedding cacheTopK =
     take cacheTopK
       (sort_key (\<lambda>item. - rScore item)
          (filter (\<lambda>item. rScore item > 0)
             (map (\<lambda>c. \<lparr>rChunk = c, rScore = cosineSimilarity queryEmbedding (cEmbedding c)\<rparr>)
                pool)))"

text \<open>The loop that materialises a cached ranking.\<close>

definition cachedRanked :: "FolderCache \<Rightarrow> CachedRanking \<Rightarrow> nat \<Rightarrow> RankedChunk list" where
  "cachedRanked cache cachedResult topK =
     concat (map (\<lambda>i. case map_of (chunks cache) (rkChunkIds cachedResult ! i) of
                         Some c \<Rightarrow> [\<lparr>rChunk = c, rScore = rkScores cachedResult ! i\<rparr>]
                       | None \<Rightarrow> [])
               [0..<min topK (length (rkChunkIds cachedResult))])"

text \<open>The test that decides whether a cached ranking is served.\<close>

definition usableCached :: "FolderCache \<Rightarrow> nat \<Rightarrow> CachedRanking option \<Rightarrow> bool" where
  "usableCached cache topK cachedResult =
     (case cachedResult of
        Some r \<Rightarrow> rkRevision r = indexRevision cache \<and> length (rkChunkIds r) \<ge> topK
      | None \<Rightarrow> False)"

definition getRankedChunks ::
  "Env \<Rightarrow> FolderCache \<Rightarrow> jstring \<Rightarrow> nat \<Rightarrow> Searcher \<times> nat
     \<Rightarrow> (js_error + RankedChunk list) \<times> Searcher \<times> nat" where
  "getRankedChunks env cache rawQuery topK w =
     (let s = fst w; t = snd w; queryKey = normalizeQuery env rawQuery in
      if queryKey = [] then (Inr [], s, t)
      else
        (let got = lruGet (dateNow env t) queryKey (resultCache s);
             s1 = s\<lparr>resultCache := snd got\<rparr>
         in if usableCached cache topK (fst got)
            then (Inr (cachedRanked cache (the (fst got)) topK), s1, t)
            else
              (case getQueryEmbedding env queryKey (trim rawQuery) (s1, t) of
                 (Inl err, s2, t2) \<Rightarrow> (Inl err, s2, t2)
               | (Inr None, s2, t2) \<Rightarrow> (Inr [], s2, t2)
               | (Inr (Some queryEmbedding), s2, t2) \<Rightarrow>
                   (let cacheTopK = max topK QUERY_RESULT_CACHE_TOP_K;
                        ranked = rankPool (searchPool cache queryEmbedding) queryEmbedding cacheTopK
                    in (Inr (take topK ranked),
                        s2\<lparr>resultCache :=
                             lruSet (dateNow env t2) queryKey
                               \<lparr>rkChunkIds = map (\<lambda>item. cId (rChunk item)) ranked,
                                rkScores = map rScore ranked,
                                rkRevision = indexRevision cache\<rparr>
                               (resultCache s2)\<rparr>,
                        t2)))))"

record RagSearchMatch =
  mFilePath :: jstring
  mScore :: real
  mContent :: jstring

text \<open>
  \<open>search\<close> and \<open>getContextForQuery\<close> after \<open>ensureLoaded\<close> has returned the
  cache. Of the search result only \<open>totalChunks\<close> and \<open>matches\<close> are kept;
  \<open>Math.round(x)\<close> is \<open>floor (x + 1/2)\<close>.
\<close>

definition searchCache ::
  "Env \<Rightarrow> FolderCache \<Rightarrow> jstring \<Rightarrow> nat option \<Rightarrow> Searcher \<times> nat
     \<Rightarrow> (js_error + nat \<times> RagSearchMatch list) \<times> Searcher \<times> nat" where
  "searchCache env cache q topKOption w =
     (let topK = (case topKOption of Some k \<Rightarrow> k | None \<Rightarrow> TOP_K) in
      if \<not> configEnabled cache \<or> length (chunks cache) = 0 then (Inr (length (chunks cache), []), w)
      else if trim q = [] then (Inr (length (chunks cache), []), w)
      else
        (case getRankedChunks env cache (trim q) (max 1 topK) w of
           (Inl err, w') \<Rightarrow> (Inl err, w')
         | (Inr ranked, w') \<Rightarrow>
             (Inr (length (chunks cache),
                   map (\<lambda>item. \<lparr>mFilePath = cFilePath (rChunk item),
                                  mScore = of_int \<lfloor>rScore item * 1000 + 1 / 2\<rfloor> / 1000,
                                  mContent = cContent (rChunk item)\<rparr>) ranked),
              w')))"

text \<open>\<open>lines.join("\\n")\<close>\<close>

fun joinLines :: "jstring list \<Rightarrow> jstring" where
  "joinLines [] = []"
| "joinLines [l] = l"
| "joinLines (l # ls) = l @ LF # joinLines ls"

definition contextForCache ::
  "Env \<Rightarrow> FolderCache \<Rightarrow> jstring \<Rightarrow> Searcher \<times> nat \<Rightarrow> (js_error + jstring) \<times> Searcher \<times> nat" where
  "contextForCache env cache q w =
     (if \<not> configEnabled cache \<or> length (chunks cache) = 0 \<or> trim q = [] then (Inr [], w)
      else
        (case getRankedChunks env cache q TOP_K w of
           (Inl err, w') \<Rightarrow> (Inl err, w')
         | (Inr ranked, w') \<Rightarrow>
             if length ranked = 0 then (Inr [], w')
             else
               (Inr (trim (joinLines
                  ([js ''## RAG Context (project files)'',
                    js ''Use the following snippets as additional project context when relevant:'',
                    []]
                   @ concat (map (\<lambda>item. [js ''### '' @ cFilePath (rChunk item),
                                             cContent (rChunk item), []]) ranked)))),
                w')))"

text \<open>
  \<open>CodebaseSearcher.search\<close> and \<open>CodebaseSearcher.getContextForQuery\<close>: the
  searcher and the indexer's world are the state.
\<close>

definition search ::
  "Env \<Rightarrow> jstring \<Rightarrow> jstring \<Rightarrow> nat option \<Rightarrow> Searcher \<times> World
     \<Rightarrow> (js_error + nat \<times> RagSearchMatch list) \<times> Searcher \<times> World" where
  "search env folderPathInput q topKOption sw =
     (let loaded = ensureLoaded env folderPathInput (snd sw); w1 = snd loaded in
      case searchCache env (fst loaded) q topKOption (fst sw, wClock w1) of
        (res, s', t') \<Rightarrow> (res, s', w1\<lparr>wClock := t'\<rparr>))"

definition getContextForQuery ::
  "Env \<Rightarrow> jstring \<Rightarrow> jstring \<Rightarrow> Searcher \<times> World
     \<Rightarrow> (js_error + jstring) \<times> Searcher \<times> World" where
  "getContextForQuery env folderPathInput q sw =
     (let loaded = ensureLoaded env folderPathInput (snd sw); w1 = snd loaded in
      case contextForCache env (fst loaded) q (fst sw, wClock w1) of
        (res, s', t') \<Rightarrow> (res, s', w1\<lparr>wClock := t'\<rparr>))"

section \<open>The invariant between chunks and file states\<close>

text \<open>
  \<open>isChunkIdOf path cid\<close>: \<open>cid\<close> is \<open>path\<close>, then \<open>::\<close>, then a non-empty run of
  decimal digits, the shape of every id the indexer generates for \<open>path\<close>.
\<close>

definition isChunkIdOf :: "jstring \<Rightarrow> jstring \<Rightarrow> bool" where
  "isChunkIdOf path cid \<longleftrightarrow>
     take (length path + 2) cid = path @ js ''::''
     \<and> drop (length path + 2) cid \<noteq> []
     \<and> (\<forall>ch\<in>set (drop (length path + 2) cid). ch \<in> set digitChars)"

text \<open>
  \<open>cacheInv\<close>: every chunk id a file state lists is a key of the chunks map and has the
  shape of an id of that file, and every key of the chunks map is listed by a file state.
\<close>

definition cacheInv :: "FolderCache \<Rightarrow> bool" where
  "cacheInv c \<longleftrightarrow>
     (\<forall>p\<in>set (map fst (fileStates c)).
        case map_of (fileStates c) p of
          None \<Rightarrow> True
        | Some st \<Rightarrow> \<forall>cid\<in>set (sChunkIds st).
                       cid \<in> set (map fst (chunks c)) \<and> isChunkIdOf p cid)
     \<and> (\<forall>cid\<in>set (map fst (chunks c)).
          \<exists>p\<in>set (map fst (fileStates c)).
            case map_of (fileStates c) p of
              None \<Rightarrow> False
            | Some st \<Rightarrow> cid \<in> set (sChunkIds st))"

section \<open>Example data\<close>

text \<open>Small concrete inputs, on which the theorems below are run.\<close>

definition exChunk :: "jstring \<Rightarrow> nat \<Rightarrow> real list \<Rightarrow> RagChunk" where
  "exChunk path i v =
     \<lparr>cId = chunkIdFor path i, cFilePath = path, cModifiedAt = 1, cContent = js ''alpha'',
      cEmbedding = v, cSymbols = None\<rparr>"

definition exState :: "real \<Rightarrow> jstring list \<Rightarrow> RagFileState" where
  "exState mtime ids = \<lparr>sModifiedAt = mtime, sSize = 5, sContentHash = js ''h'', sChunkIds = ids\<rparr>"

definition exCache ::
  "jstring \<Rightarrow> (jstring \<times> RagChunk) list \<Rightarrow> (jstring \<times> RagFileState) list \<Rightarrow> FolderCache" where
  "exCache folder cs fs =
     (newCache folder)\<lparr>configEnabled := True, chunks := cs, fileStates := fs,
                       persistedLoaded := True, indexRevision := 1\<rparr>"

definition exFile :: "jstring \<Rightarrow> real \<Rightarrow> CandidateFile" where
  "exFile path mtime =
     \<lparr>relativePath = path, fullPath = js ''/a/'' @ path, fModifiedAt = mtime, fSize = 5\<rparr>"

text \<open>
  An environment whose scan finds \<open>files\<close>, whose files all read \<open>alpha\<close> with hash
  \<open>h\<close>, whose chunker returns the content as one chunk, whose provider embeds every
  text as \<open>[1]\<close>, where the first worker that has not returned always runs on, and where
  writing to the store succeeds.
\<close>

definition exEnv :: "CandidateFile list \<Rightarrow> nat option \<Rightarrow> js_error option \<Rightarrow> Env" where
  "exEnv files abortAtN reason =
     \<lparr>scanDirectory = (\<lambda>_. Inr files),
      readFile = (\<lambda>_. Inr (js ''alpha'')),
      computeContentHash = (\<lambda>_. js ''h''),
      chunkFile = (\<lambda>content _. [\<lparr>rContent = content, rSymbols = None\<rparr>]),
      embed = (\<lambda>_ texts. Inr (map (\<lambda>_. [1]) texts)),
      abortAt = abortAtN,
      abortReason = reason,
      dateNow = real,
      byteSize = (\<lambda>_. 1),
      createProjection = (\<lambda>_ _. []),
      toLowerCase = id,
      schedule = (\<lambda>_. 0),
      mkdir = (\<lambda>_ _. None),
      writeFile = (\<lambda>_ _. None)\<rparr>"

text \<open>Six chunks of one file \<open>a.md\<close>, all with the embedding \<open>[1]\<close>.\<close>

definition exSixChunks :: "(jstring \<times> RagChunk) list" where
  "exSixChunks =
     [(chunkIdFor (js ''a.md'') 0, exChunk (js ''a.md'') 0 [1]),
      (chunkIdFor (js ''a.md'') 1, exChunk (js ''a.md'') 1 [1]),
      (chunkIdFor (js ''a.md'') 2, exChunk (js ''a.md'') 2 [1]),
      (chunkIdFor (js ''a.md'') 3, exChunk (js ''a.md'') 3 [1]),
      (chunkIdFor (js ''a.md'') 4, exChunk (js ''a.md'') 4 [1]),
      (chunkIdFor (js ''a.md'') 5, exChunk (js ''a.md'') 5 [1])]"

text \<open>
  Two indexed folders, each at revision 1 and each with a file \<open>a.md\<close>: the six chunks
  above in \<open>/a\<close>, one chunk with the embedding \<open>[-1]\<close> in \<open>/b\<close>.
\<close>

definition exTwoFolders :: World where
  "exTwoFolders =
     \<lparr>wCaches = [(js ''/a'', exCache (js ''/a'') exSixChunks []),
                 (js ''/b'', exCache (js ''/b'')
                    [(chunkIdFor (js ''a.md'') 0, exChunk (js ''a.md'') 0 [- 1])] [])],
      wDisk = Map.empty, wClock = 0\<rparr>"

text \<open>
  A loaded cache of the folder \<open>/a\<close> at revision 1, which tracks two files \<open>a.md\<close> and
  \<open>b.md\<close> with one chunk each, and a call of \<open>index\<close> without options.
\<close>

definition exTwoFiles :: FolderCache where
  "exTwoFiles =
     exCache (js ''/a'')
       [(chunkIdFor (js ''a.md'') 0, exChunk (js ''a.md'') 0 [1]),
        (chunkIdFor (js ''b.md'') 0, exChunk (js ''b.md'') 0 [1])]
       [(js ''a.md'', exState 1 [chunkIdFor (js ''a.md'') 0]),
        (js ''b.md'', exState 1 [chunkIdFor (js ''b.md'') 0])]"

definition exOptions :: IndexOptions where
  "exOptions = \<lparr>outputFolder = None, concurrency = None, embedBatchSize = None\<rparr>"

text \<open>
  Two stores of the folder \<open>/a\<close> that hold one of the two files only: \<open>.rag-index\<close>
  with the file state of \<open>a.md\<close>, and \<open>.rag-db\<close> with the chunk of \<open>a.md\<close>.
\<close>

definition exIndexOnlyStore :: disk where
  "exIndexOnlyStore =
     Map.empty(indexPath (js ''/a'') \<mapsto>
       Json (indexPayload 1 [(js ''a.md'', exState 1 [chunkIdFor (js ''a.md'') 0])]))"

definition exDbOnlyStore :: disk where
  "exDbOnlyStore =
     Map.empty(dbPath (js ''/a'') \<mapsto>
       Json (dbPayload [(chunkIdFor (js ''a.md'') 0, exChunk (js ''a.md'') 0 [1])]))"
section \<open>Properties of the string helpers and of TextChunker\<close>

lemma isWhitespace_LF: "isWhitespace LF"
  by (simp add: isWhitespace_def LF_def)

lemma isWhitespace_CR: "isWhitespace CR"
  by (simp add: isWhitespace_def CR_def)

lemma trimEnd_eq_Nil_iff: "trimEnd s = [] \<longleftrightarrow> (\<forall>c\<in>set s. isWhitespace c)"
  by (auto simp: trimEnd_def dropWhile_eq_Nil_conv)

lemma set_trimStart: "set (trimStart s) \<subseteq> set s"
  by (simp add: trimStart_def set_dropWhileD subsetI)

lemma trim_eq_Nil_iff: "trim s = [] \<longleftrightarrow> (\<forall>c\<in>set s. isWhitespace c)"
proof
  assume "trim s = []"
  then have a: "\<forall>c\<in>set (dropWhile isWhitespace s). isWhitespace c"
    by (simp add: trim_def trimEnd_eq_Nil_iff trimStart_def)
  have "dropWhile isWhitespace s = []"
  proof (rule ccontr)
    assume n: "dropWhile isWhitespace s \<noteq> []"
    then have "\<not> isWhitespace (hd (dropWhile isWhitespace s))"
      by (rule hd_dropWhile)
    moreover have "hd (dropWhile isWhitespace s) \<in> set (dropWhile isWhitespace s)"
      using n by simp
    ultimately show False using a by blast
  qed
  then show "\<forall>c\<in>set s. isWhitespace c"
    by (simp add: dropWhile_eq_Nil_conv)
next
  assume "\<forall>c\<in>set s. isWhitespace c"
  then show "trim s = []"
    by (auto simp: trim_def trimStart_def trimEnd_def dest: set_dropWhileD)
qed

lemma length_trimEnd_le: "length (trimEnd s) \<le> length s"
  by (simp add: trimEnd_def length_dropWhile_le order_trans[OF length_dropWhile_le])

lemma length_trimStart_le: "length (trimStart s) \<le> length s"
  by (simp add: trimStart_def length_dropWhile_le)

lemma length_trim_le: "length (trim s) \<le> length s"
  unfolding trim_def by (rule order_trans[OF length_trimEnd_le length_trimStart_le])

lemma trimEnd_snoc_ws: "isWhitespace c \<Longrightarrow> trimEnd (s @ [c]) = trimEnd s"
  by (simp add: trimEnd_def)

lemma trimStart_snoc: "trimStart (s @ [c]) = (if \<forall>x\<in>set s. isWhitespace x then trimStart [c] else trimStart s @ [c])"
  by (auto simp: trimStart_def dropWhile_append)

lemma trim_snoc_ws:
  assumes "isWhitespace c"
  shows "trim (s @ [c]) = trim s"
proof (cases "\<forall>x\<in>set s. isWhitespace x")
  case True
  then have "trim s = []" by (simp add: trim_eq_Nil_iff)
  moreover have "trim (s @ [c]) = []" using True assms by (simp add: trim_eq_Nil_iff)
  ultimately show ?thesis by simp
next
  case False
  then show ?thesis using assms by (auto simp: trim_def trimStart_snoc trimEnd_snoc_ws)
qed

lemma length_trim_last_ws:
  assumes "s \<noteq> []" "isWhitespace (last s)"
  shows "length (trim s) < length s"
proof -
  obtain t c where s: "s = t @ [c]" using assms(1) by (metis append_butlast_last_id)
  with assms(2) have "trim s = trim t" by (simp add: trim_snoc_ws)
  then show ?thesis using length_trim_le[of t] s by simp
qed

lemma trimEnd_no_ws_last: "trimEnd s \<noteq> [] \<Longrightarrow> \<not> isWhitespace (last (trimEnd s))"
  unfolding trimEnd_def using hd_dropWhile[of isWhitespace "rev s"]
  by (simp add: last_rev)

lemma trimStart_no_ws_hd: "trimStart s \<noteq> [] \<Longrightarrow> \<not> isWhitespace (hd (trimStart s))"
  unfolding trimStart_def by (rule hd_dropWhile)

lemma trimStart_id: "s \<noteq> [] \<Longrightarrow> \<not> isWhitespace (hd s) \<Longrightarrow> trimStart s = s"
  by (cases s) (simp_all add: trimStart_def)

lemma trimStart_Nil_or: "s = [] \<or> isWhitespace (hd s) \<or> trimStart s = s"
  by (cases s) (simp_all add: trimStart_def)

lemma trimEnd_id: "s \<noteq> [] \<Longrightarrow> \<not> isWhitespace (last s) \<Longrightarrow> trimEnd s = s"
  by (simp add: trimEnd_def) (metis dropWhile.simps(2) rev.simps(2) rev_rev_ident append_butlast_last_id rev_append)

lemma hd_trimEnd: "trimEnd s \<noteq> [] \<Longrightarrow> hd (trimEnd s) = hd s"
proof (induction s rule: rev_induct)
  case Nil then show ?case by (simp add: trimEnd_def)
next
  case (snoc x xs)
  show ?case
  proof (cases "isWhitespace x")
    case True
    with snoc show ?thesis by (cases xs) (simp_all add: trimEnd_snoc_ws trimEnd_def)
  next
    case False
    then have "trimEnd (xs @ [x]) = xs @ [x]" by (simp add: trimEnd_id)
    then show ?thesis by simp
  qed
qed

lemma trim_idem: "trim (trim s) = trim s"
proof (cases "trim s = []")
  case True
  have "trim [] = []" by (simp add: trim_def trimStart_def trimEnd_def)
  then show ?thesis using True by simp
next
  case False
  then have ne: "trimEnd (trimStart s) \<noteq> []" by (simp add: trim_def)
  then have ts: "trimStart s \<noteq> []" by (auto simp: trimEnd_def)
  have "hd (trim s) = hd (trimStart s)" using ne by (simp add: trim_def hd_trimEnd)
  then have "\<not> isWhitespace (hd (trim s))" using trimStart_no_ws_hd[OF ts] by simp
  then have a: "trimStart (trim s) = trim s" using False by (simp add: trimStart_id)
  have "\<not> isWhitespace (last (trim s))" using trimEnd_no_ws_last[OF ne] by (simp add: trim_def)
  then have "trimEnd (trim s) = trim s" using False by (simp add: trimEnd_id)
  with a show ?thesis by (simp add: trim_def[of "trim s"])
qed


lemma lastIndexOfLF_Some:
  "lastIndexOfLF s i = Some j \<Longrightarrow> j \<le> i \<and> j < length s \<and> s ! j = LF"
proof -
  assume a: "lastIndexOfLF s i = Some j"
  let ?found = "filter (\<lambda>i. s ! i = LF) [0..<min (Suc i) (length s)]"
  from a have ne: "?found \<noteq> []" and j: "j = last ?found"
    by (auto simp: lastIndexOfLF_def Let_def split: if_splits)
  from ne have "last ?found \<in> set ?found" by (rule last_in_set)
  with j show ?thesis by auto
qed

lemma windowEnd_cases:
  assumes "start < length clean"
  shows "(windowEnd chunkSize clean start \<le> start + chunkSize \<or>
          (\<exists>j. windowEnd chunkSize clean start = Suc j \<and> j \<le> start + chunkSize \<and> clean ! j = LF))
         \<and> windowEnd chunkSize clean start \<le> length clean
         \<and> (0 < chunkSize \<longrightarrow> start < windowEnd chunkSize clean start)"
proof (cases "min (length clean) (start + chunkSize) < length clean")
  case False
  then show ?thesis using assms by (auto simp: windowEnd_def Let_def)
next
  case True
  show ?thesis
  proof (cases "lastIndexOfLF clean (min (length clean) (start + chunkSize))")
    case None
    then show ?thesis using True assms by (auto simp: windowEnd_def Let_def)
  next
    case (Some j)
    from lastIndexOfLF_Some[OF Some] have j: "j \<le> start + chunkSize" "j < length clean" "clean ! j = LF"
      by auto
    show ?thesis using True assms Some j by (auto simp: windowEnd_def Let_def)
  qed
qed

lemma length_window_text:
  assumes "start < length clean"
  shows "length (trim (sliceStr clean start (windowEnd chunkSize clean start))) \<le> chunkSize"
proof -
  let ?e = "windowEnd chunkSize clean start"
  from windowEnd_cases[OF assms, of chunkSize]
  consider (a) "?e \<le> start + chunkSize"
    | (b) j where "?e = Suc j" "j \<le> start + chunkSize" "clean ! j = LF" "?e \<le> length clean" "\<not> ?e \<le> start + chunkSize"
    by blast
  then show ?thesis
  proof cases
    case a
    have "length (trim (sliceStr clean start ?e)) \<le> length (sliceStr clean start ?e)"
      by (rule length_trim_le)
    also have "\<dots> \<le> chunkSize" using a by (simp add: sliceStr_def)
    finally show ?thesis .
  next
    case b
    then have j: "j = start + chunkSize" "j < length clean" by auto
    have sl: "sliceStr clean start ?e = take chunkSize (drop start clean) @ [clean ! j]"
      using b j by (simp add: sliceStr_def take_Suc_conv_app_nth)
    then have "trim (sliceStr clean start ?e) = trim (take chunkSize (drop start clean))"
      using b(3) by (simp add: trim_snoc_ws isWhitespace_LF)
    then show ?thesis using length_trim_le[of "take chunkSize (drop start clean)"] by simp
  qed
qed

lemma chunkLoop_windows:
  "chunkLoop chunkSize chunkOverlap clean start =
     filter (\<lambda>t. t \<noteq> [])
       (map (\<lambda>(s, e). trim (sliceStr clean s e)) (chunkWindows chunkSize chunkOverlap clean start))"
proof (induction chunkSize chunkOverlap clean start rule: chunkLoop.induct)
  case (1 chunkSize chunkOverlap clean start)
  show ?case
  proof (cases "start < length clean")
    case False
    then show ?thesis by (subst chunkLoop.simps, subst chunkWindows.simps) simp
  next
    case True
    show ?thesis
    proof (cases "windowEnd chunkSize clean start \<ge> length clean")
      case e: True
      then show ?thesis using True
        by (subst chunkLoop.simps, subst chunkWindows.simps) (simp add: Let_def)
    next
      case e: False
      have ih: "chunkLoop chunkSize chunkOverlap clean (max (start + 1) (windowEnd chunkSize clean start - chunkOverlap)) =
                filter (\<lambda>t. t \<noteq> []) (map (\<lambda>(s, e). trim (sliceStr clean s e))
                  (chunkWindows chunkSize chunkOverlap clean (max (start + 1) (windowEnd chunkSize clean start - chunkOverlap))))"
        using "1.IH"[OF True refl refl refl e] .
      show ?thesis using True e ih
        by (subst chunkLoop.simps, subst chunkWindows.simps) (simp add: Let_def)
    qed
  qed
qed

lemma chunkWindows_valid:
  "(s, e) \<in> set (chunkWindows chunkSize chunkOverlap clean start) \<Longrightarrow>
     s < length clean \<and> e = windowEnd chunkSize clean s"
proof (induction chunkSize chunkOverlap clean start rule: chunkWindows.induct)
  case (1 chunkSize chunkOverlap clean start)
  show ?case
  proof (cases "start < length clean")
    case False
    with "1.prems" show ?thesis by (subst (asm) chunkWindows.simps) simp
  next
    case True
    show ?thesis
    proof (cases "windowEnd chunkSize clean start \<ge> length clean")
      case e: True
      with True "1.prems" show ?thesis by (subst (asm) chunkWindows.simps) (simp add: Let_def)
    next
      case e: False
      from "1.prems" True e have "(s, e) = (start, windowEnd chunkSize clean start) \<or>
          (s, e) \<in> set (chunkWindows chunkSize chunkOverlap clean (max (start + 1) (windowEnd chunkSize clean start - chunkOverlap)))"
        by (subst (asm) chunkWindows.simps) (simp add: Let_def)
      then show ?thesis using "1.IH"[OF True refl e] True by auto
    qed
  qed
qed

lemma chunkWindows_successive:
  "Suc i < length (chunkWindows chunkSize chunkOverlap clean start) \<Longrightarrow>
     fst (chunkWindows chunkSize chunkOverlap clean start ! Suc i) =
       max (fst (chunkWindows chunkSize chunkOverlap clean start ! i) + 1)
           (snd (chunkWindows chunkSize chunkOverlap clean start ! i) - chunkOverlap)"
proof (induction chunkSize chunkOverlap clean start arbitrary: i rule: chunkWindows.induct)
  case (1 chunkSize chunkOverlap clean start)
  let ?e = "windowEnd chunkSize clean start"
  let ?n = "max (start + 1) (?e - chunkOverlap)"
  have lt: "start < length clean" using "1.prems" by (subst (asm) chunkWindows.simps) (simp split: if_splits)
  have e: "\<not> ?e \<ge> length clean" using "1.prems" lt by (subst (asm) chunkWindows.simps) (simp add: Let_def split: if_splits)
  have unf: "chunkWindows chunkSize chunkOverlap clean start = (start, ?e) # chunkWindows chunkSize chunkOverlap clean ?n"
    using lt e by (subst chunkWindows.simps) (simp add: Let_def)
  have hdn: "chunkWindows chunkSize chunkOverlap clean ?n \<noteq> [] \<Longrightarrow> fst (hd (chunkWindows chunkSize chunkOverlap clean ?n)) = ?n"
    by (subst chunkWindows.simps, subst (asm) chunkWindows.simps) (simp add: Let_def split: if_splits)
  show ?case
  proof (cases i)
    case 0
    have ne: "chunkWindows chunkSize chunkOverlap clean ?n \<noteq> []" using "1.prems" 0 unf by auto
    have "fst (chunkWindows chunkSize chunkOverlap clean ?n ! 0) = ?n"
      using hdn[OF ne] ne by (simp add: hd_conv_nth)
    then show ?thesis using 0 unf by simp
  next
    case (Suc k)
    have "Suc k < length (chunkWindows chunkSize chunkOverlap clean ?n)" using "1.prems" Suc unf by simp
    from "1.IH"[OF lt refl e this] show ?thesis using Suc unf by simp
  qed
qed

lemma ws_replaceCRLF: "(\<forall>c\<in>set (replaceCRLF s). isWhitespace c) \<longleftrightarrow> (\<forall>c\<in>set s. isWhitespace c)"
  by (induction s rule: replaceCRLF.induct) (auto simp: isWhitespace_LF isWhitespace_CR)

lemma trim_hd_not_ws: "trim s \<noteq> [] \<Longrightarrow> \<not> isWhitespace (hd (trim s))"
proof -
  assume a: "trim s \<noteq> []"
  then have ne: "trimEnd (trimStart s) \<noteq> []" by (simp add: trim_def)
  then have ts: "trimStart s \<noteq> []" by (auto simp: trimEnd_def)
  have "hd (trim s) = hd (trimStart s)" using ne by (simp add: trim_def hd_trimEnd)
  then show ?thesis using trimStart_no_ws_hd[OF ts] by simp
qed

lemma chunkLoop_nonempty:
  assumes "0 < chunkSize" "clean \<noteq> []" "\<not> isWhitespace (hd clean)"
  shows "chunkLoop chunkSize chunkOverlap clean 0 \<noteq> []"
proof -
  let ?e = "windowEnd chunkSize clean 0"
  have lt: "0 < length clean" using assms(2) by simp
  from windowEnd_cases[OF lt, of chunkSize] assms(1) have e: "0 < ?e" by simp
  have "hd clean \<in> set (sliceStr clean 0 ?e)"
    using e assms(2) by (cases clean; cases ?e) (simp_all add: sliceStr_def)
  then have "trim (sliceStr clean 0 ?e) \<noteq> []"
    using assms(3) by (auto simp: trim_eq_Nil_iff)
  then show ?thesis using lt
    by (subst chunkLoop.simps) (simp add: Let_def)
qed

text \<open>
  Claim C7. \<open>TextChunker.chunk\<close> works on \<open>clean\<close>, the input with CRLF
  replaced by LF and then trimmed. For a positive \<open>chunkSize\<close> it returns the empty
  list exactly when \<open>clean\<close> is empty, which is exactly when the input consists of
  whitespace only (the empty input included). Every emitted chunk is trimmed and has at
  most \<open>chunkSize\<close> code units. The emitted chunks are the non-empty trimmed texts of
  the windows the loop visits, and the start of each window after the first is
  \<open>max(prevStart + 1, prevEnd - chunkOverlap)\<close>.
\<close>

theorem TextChunker_chunk_contract:
  assumes "0 < chunkSize"
  shows "(chunk chunkSize chunkOverlap content = [] \<longleftrightarrow> cleanText content = [])
       \<and> (cleanText content = [] \<longleftrightarrow> (\<forall>c\<in>set content. isWhitespace c))
       \<and> (\<forall>t\<in>set (chunk chunkSize chunkOverlap content). trim t = t \<and> length t \<le> chunkSize)
       \<and> chunk chunkSize chunkOverlap content =
           filter (\<lambda>t. t \<noteq> [])
             (map (\<lambda>(s, e). trim (sliceStr (cleanText content) s e))
               (chunkWindows chunkSize chunkOverlap (cleanText content) 0))
       \<and> (\<forall>i. Suc i < length (chunkWindows chunkSize chunkOverlap (cleanText content) 0) \<longrightarrow>
             int (fst (chunkWindows chunkSize chunkOverlap (cleanText content) 0 ! Suc i)) =
               max (int (fst (chunkWindows chunkSize chunkOverlap (cleanText content) 0 ! i)) + 1)
                   (int (snd (chunkWindows chunkSize chunkOverlap (cleanText content) 0 ! i))
                      - int chunkOverlap))"
proof -
  let ?clean = "cleanText content"
  let ?ws = "chunkWindows chunkSize chunkOverlap ?clean 0"
  have c4: "chunk chunkSize chunkOverlap content =
      filter (\<lambda>t. t \<noteq> []) (map (\<lambda>(s, e). trim (sliceStr ?clean s e)) ?ws)"
  proof (cases "?clean = []")
    case True
    then show ?thesis by (subst chunkWindows.simps) (simp add: chunk_def)
  next
    case False
    then show ?thesis by (simp add: chunk_def chunkLoop_windows Let_def)
  qed
  have c1: "chunk chunkSize chunkOverlap content = [] \<longleftrightarrow> ?clean = []"
  proof (cases "?clean = []")
    case True
    then show ?thesis by (simp add: chunk_def)
  next
    case False
    have "trim ?clean = ?clean" by (simp add: cleanText_def trim_idem)
    then have "\<not> isWhitespace (hd ?clean)" using trim_hd_not_ws[of ?clean] False by simp
    from chunkLoop_nonempty[OF assms False this] False show ?thesis by (simp add: chunk_def)
  qed
  have c2: "?clean = [] \<longleftrightarrow> (\<forall>c\<in>set content. isWhitespace c)"
    by (simp add: cleanText_def trim_eq_Nil_iff ws_replaceCRLF)
  have c3: "\<forall>t\<in>set (chunk chunkSize chunkOverlap content). trim t = t \<and> length t \<le> chunkSize"
  proof
    fix t assume "t \<in> set (chunk chunkSize chunkOverlap content)"
    then obtain s e where se: "(s, e) \<in> set ?ws" and t: "t = trim (sliceStr ?clean s e)"
      unfolding c4 by auto
    from chunkWindows_valid[OF se] have "s < length ?clean" "e = windowEnd chunkSize ?clean s" by auto
    then have "length t \<le> chunkSize" using length_window_text[of s ?clean chunkSize] t by simp
    moreover have "trim t = t" using t by (simp add: trim_idem)
    ultimately show "trim t = t \<and> length t \<le> chunkSize" by simp
  qed
  have c5: "\<forall>i. Suc i < length ?ws \<longrightarrow>
             int (fst (?ws ! Suc i)) = max (int (fst (?ws ! i)) + 1) (int (snd (?ws ! i)) - int chunkOverlap)"
  proof (intro allI impI)
    fix i assume "Suc i < length ?ws"
    from chunkWindows_successive[OF this] show
      "int (fst (?ws ! Suc i)) = max (int (fst (?ws ! i)) + 1) (int (snd (?ws ! i)) - int chunkOverlap)"
      by linarith
  qed
  from c1 c2 c3 c4 c5 show ?thesis by blast
qed

lemma chunk_example:
  "chunk 3 1 [0x20, 0x61, 0x62, 0x0D, 0x0A, 0x63, 0x64, 0x0A] = [[0x61, 0x62], [0x63, 0x64]]"
  by (simp add: chunk_def cleanText_def chunkLoop.simps windowEnd_def lastIndexOfLF_def
        CR_def LF_def Let_def sliceStr_def trim_def trimStart_def trimEnd_def isWhitespace_def)

theorem TextChunker_chunk_contract_witness:
  "(0::nat) < 3
   \<and> chunk 3 1 [0x20, 0x61, 0x62, 0x0D, 0x0A, 0x63, 0x64, 0x0A] = [[0x61, 0x62], [0x63, 0x64]]
   \<and> chunkWindows 3 1 (cleanText [0x20, 0x61, 0x62, 0x0D, 0x0A, 0x63, 0x64, 0x0A]) 0 = [(0, 3), (2, 5)]
   \<and> trim [0x63, 0x64] = [0x63, 0x64]
   \<and> length [0x63, 0x64 :: jchar] \<le> 3"
proof -
  have w: "chunkWindows 3 1 (cleanText [0x20, 0x61, 0x62, 0x0D, 0x0A, 0x63, 0x64, 0x0A]) 0 = [(0, 3), (2, 5)]"
    by (simp add: cleanText_def chunkWindows.simps windowEnd_def lastIndexOfLF_def
        CR_def LF_def trim_def trimStart_def trimEnd_def isWhitespace_def)
  have h: "(0::nat) < 3" by simp
  from TextChunker_chunk_contract[OF h, of 1 "[0x20, 0x61, 0x62, 0x0D, 0x0A, 0x63, 0x64, 0x0A]"]
  have "\<forall>t\<in>set (chunk 3 1 [0x20, 0x61, 0x62, 0x0D, 0x0A, 0x63, 0x64, 0x0A]).
         trim t = t \<and> length t \<le> 3" by blast
  then have "trim [0x63, 0x64] = [0x63, 0x64] \<and> length [0x63, 0x64 :: jchar] \<le> 3"
    unfolding chunk_example by simp
  with h w chunk_example show ?thesis by blast
qed

section \<open>Properties of the disk storage\<close>

lemma field_chunkToJson:
  "field ''id'' (chunkToJson c) = Some (JStr (cId c))"
  "field ''filePath'' (chunkToJson c) = Some (JStr (cFilePath c))"
  "field ''modifiedAt'' (chunkToJson c) = Some (JNum (cModifiedAt c))"
  "field ''content'' (chunkToJson c) = Some (JStr (cContent c))"
  "field ''embedding'' (chunkToJson c) = Some (JArr (map JNum (cEmbedding c)))"
  "field ''symbols'' (chunkToJson c) = cSymbols c"
  by (simp_all add: field_def chunkToJson_def js_def split: option.splits)

lemma numbersOf_JNum: "numbersOf (map JNum xs) = Some xs"
  by (simp add: numbersOf_def isNumber_def comp_def)

lemma chunkOfJson_chunkToJson: "chunkOfJson (chunkToJson c) = Some c"
  by (simp add: chunkOfJson_def field_chunkToJson numbersOf_JNum)

lemma truthy_chunkToJson: "truthy (chunkToJson c)"
  by (simp add: truthy_def chunkToJson_def)

lemma truthy_JStr: "truthy (JStr s) \<longleftrightarrow> s \<noteq> []"
  by (simp add: truthy_def)

lemma loadChunk_chunkToJson:
  "cId c \<noteq> [] \<Longrightarrow> loadChunk acc (chunkToJson c) = AList.update (cId c) c acc"
  by (simp add: loadChunk_def truthy_chunkToJson field_chunkToJson chunkOfJson_chunkToJson
        truthy_JStr isArray_def)

lemma field_stateToJson:
  "field ''modifiedAt'' (stateToJson st) = Some (JNum (sModifiedAt st))"
  "field ''size'' (stateToJson st) = Some (JNum (sSize st))"
  "field ''contentHash'' (stateToJson st) = Some (JStr (sContentHash st))"
  "field ''chunkIds'' (stateToJson st) = Some (JArr (map JStr (sChunkIds st)))"
  by (simp_all add: field_def stateToJson_def js_def)

lemma strings_of_JStr:
  "concat (map ((\<lambda>v. case v of JStr s \<Rightarrow> [s] | _ \<Rightarrow> []) \<circ> JStr) ids) = ids"
  by (induction ids) simp_all

lemma loadState_stateToJson: "loadState acc (p, stateToJson st) = AList.update p st acc"
proof -
  have tr: "truthy (stateToJson st)" by (simp add: truthy_def stateToJson_def)
  have eq: "\<lparr>sModifiedAt = sModifiedAt st, sSize = sSize st,
      sContentHash = sContentHash st, sChunkIds = sChunkIds st\<rparr> = st" by (cases st) simp
  show ?thesis
    by (simp add: loadState_def field_stateToJson isNumber_def isArray_def strings_of_JStr tr eq)
qed

lemma map_of_foldl_update:
  "distinct (map fst xs) \<Longrightarrow>
     map_of (foldl (\<lambda>acc kv. AList.update (fst kv) (snd kv) acc) acc xs) = map_of acc ++ map_of xs"
proof (induction xs arbitrary: acc)
  case Nil
  then show ?case by simp
next
  case (Cons x xs)
  obtain k v where x: "x = (k, v)" by (cases x)
  from Cons.prems x have k: "k \<notin> fst ` set xs" and d: "distinct (map fst xs)" by auto
  have "map_of (foldl (\<lambda>acc kv. AList.update (fst kv) (snd kv) acc) acc (x # xs)) =
        map_of (AList.update k v acc) ++ map_of xs"
    using Cons.IH[OF d, of "AList.update k v acc"] x by simp
  also have "\<dots> = (map_of acc)(k \<mapsto> v) ++ map_of xs" by (simp add: update_conv')
  also have "\<dots> = map_of acc ++ map_of (x # xs)"
  proof (rule ext)
    fix q
    show "((map_of acc)(k \<mapsto> v) ++ map_of xs) q = (map_of acc ++ map_of (x # xs)) q"
    proof (cases "q = k")
      case True
      have "map_of xs k = None" using k by (simp add: map_of_eq_None_iff)
      then show ?thesis using True x by (simp add: map_add_def)
    next
      case False
      then show ?thesis using x by (auto simp: map_add_def split: option.splits)
    qed
  qed
  finally show ?case .
qed

lemma foldl_loadChunk_saved:
  "\<forall>kc\<in>set cs. cId (snd kc) = fst kc \<and> fst kc \<noteq> [] \<Longrightarrow>
     foldl loadChunk acc (map (chunkToJson \<circ> snd) cs) =
       foldl (\<lambda>acc kv. AList.update (fst kv) (snd kv) acc) acc cs"
  by (induction cs arbitrary: acc) (simp_all add: loadChunk_chunkToJson)

lemma foldl_loadState_saved:
  "foldl loadState acc (map (\<lambda>(p, st). (p, stateToJson st)) fs) =
       foldl (\<lambda>acc kv. AList.update (fst kv) (snd kv) acc) acc fs"
  by (induction fs arbitrary: acc) (simp_all add: loadState_stateToJson split_beta)

lemma splitSlash_nonempty: "splitSlash s \<noteq> []"
  by (induction s) (auto split: list.splits)

lemma splitSlash_append_segment:
  "(0x2F :: jchar) \<notin> set b \<Longrightarrow> splitSlash (r @ 0x2F # b) = splitSlash r @ [b]"
proof (induction r)
  case Nil
  have "splitSlash b = [b]" using Nil
  proof (induction b)
    case Nil
    then show ?case by simp
  next
    case (Cons c b)
    then show ?case by simp
  qed
  then show ?case by simp
next
  case (Cons c r)
  then show ?case using splitSlash_nonempty[of r] by (auto split: list.splits)
qed

lemma joinSlash_snoc: "joinSlash (segs @ [b]) = (if segs = [] then b else joinSlash segs @ [0x2F] @ b)"
proof (induction segs rule: joinSlash.induct)
  case 1
  then show ?case by simp
next
  case (2 seg)
  then show ?case by simp
next
  case (3 seg v va)
  then show ?case by simp
qed

text \<open>
  Joining a non-empty path with a plain segment appends the segment to a prefix that
  depends on the path only.
\<close>

lemma join_plain_segment:
  assumes "r \<noteq> []" "b \<noteq> []" "(0x2F :: jchar) \<notin> set b" "b \<noteq> [0x2E]" "b \<noteq> [0x2E, 0x2E]"
  shows "join r b =
           (if hd r = 0x2F then [0x2F] else [])
           @ (if foldl (normStep (hd r \<noteq> 0x2F)) [] (splitSlash r) = [] then []
              else joinSlash (foldl (normStep (hd r \<noteq> 0x2F)) [] (splitSlash r)) @ [0x2F])
           @ b"
proof -
  let ?S = "\<lambda>above. foldl (normStep above) [] (splitSlash r)"
  have hd': "hd (r @ 0x2F # b) = hd r" using assms(1) by simp
  have "last b \<in> set b" using assms(2) by simp
  then have "last b \<noteq> 0x2F" using assms(3) by metis
  then have lst': "last (r @ 0x2F # b) \<noteq> 0x2F" using assms(2) by simp
  have f: "foldl (normStep above) [] (splitSlash (r @ 0x2F # b)) = ?S above @ [b]" for above
    using assms by (simp add: splitSlash_append_segment normStep_def)
  have n: "normalizeString (r @ 0x2F # b) above
             = (if ?S above = [] then b else joinSlash (?S above) @ [0x2F] @ b)" for above
    unfolding normalizeString_def f by (rule joinSlash_snoc)
  have ne: "normalizeString (r @ 0x2F # b) above \<noteq> []" for above
    unfolding n using assms(2) by simp
  have j: "join r b = normalizePath (r @ 0x2F # b)" using assms(1,2) by (simp add: join_def)
  show ?thesis
  proof (cases "hd r = 0x2F")
    case True
    have "normalizePath (r @ 0x2F # b) = [0x2F] @ normalizeString (r @ 0x2F # b) False"
      unfolding normalizePath_def using ne[of False] lst' True by (simp add: Let_def hd')
    then show ?thesis unfolding j n using True by simp
  next
    case False
    have "normalizePath (r @ 0x2F # b) = normalizeString (r @ 0x2F # b) True"
      unfolding normalizePath_def using ne[of True] lst' False by (simp add: Let_def hd')
    then show ?thesis unfolding j n using False by simp
  qed
qed

lemma join_nonempty: "join a b \<noteq> []"
  by (simp add: join_def normalizePath_def Let_def)


lemma dbPath_neq_indexPath: "dbPath folder \<noteq> indexPath folder"
proof -
  have r: "ragDir folder \<noteq> []" unfolding ragDir_def by (rule join_nonempty)
  have a: "dbPath folder = join (ragDir folder) (js ''.rag-db'')"
    by (simp add: dbPath_def RAG_DB_FILE_def)
  have b: "indexPath folder = join (ragDir folder) (js ''.rag-index'')"
    by (simp add: indexPath_def RAG_INDEX_FILE_def)
  have ja: "join (ragDir folder) (js ''.rag-db'') =
           (if hd (ragDir folder) = 0x2F then [0x2F] else [])
           @ (if foldl (normStep (hd (ragDir folder) \<noteq> 0x2F)) [] (splitSlash (ragDir folder)) = [] then []
              else joinSlash (foldl (normStep (hd (ragDir folder) \<noteq> 0x2F)) [] (splitSlash (ragDir folder))) @ [0x2F])
           @ js ''.rag-db''"
    by (rule join_plain_segment[OF r]) (simp_all add: js_def)
  have jb: "join (ragDir folder) (js ''.rag-index'') =
           (if hd (ragDir folder) = 0x2F then [0x2F] else [])
           @ (if foldl (normStep (hd (ragDir folder) \<noteq> 0x2F)) [] (splitSlash (ragDir folder)) = [] then []
              else joinSlash (foldl (normStep (hd (ragDir folder) \<noteq> 0x2F)) [] (splitSlash (ragDir folder))) @ [0x2F])
           @ js ''.rag-index''"
    by (rule join_plain_segment[OF r]) (simp_all add: js_def)
  have "js ''.rag-db'' \<noteq> js ''.rag-index''" by (simp add: js_def)
  then show ?thesis unfolding a b ja jb by simp
qed

lemma ex_paths:
  "ragDir (js ''/a'') = js ''/a/.rag-ts''"
  "dbPath (js ''/a'') = js ''/a/.rag-ts/.rag-db''"
  "indexPath (js ''/a'') = js ''/a/.rag-ts/.rag-index''"
  "ragDir (js ''/b'') = js ''/b/.rag-ts''"
  "dbPath (js ''/b'') = js ''/b/.rag-ts/.rag-db''"
  "indexPath (js ''/b'') = js ''/b/.rag-ts/.rag-index''"
  by (simp_all add: dbPath_def indexPath_def ragDir_def join_def normalizePath_def
        normalizeString_def normStep_def RAG_STORAGE_DIR_def RAG_DB_FILE_def RAG_INDEX_FILE_def
        Let_def js_def)

lemma ex_join:
  "join (js ''a//b/../c/'') (js ''./x'') = js ''a/c/x''"
  "join [] (js ''.rag-ts'') = js ''.rag-ts''"
  "join (js ''/..'') (js ''x'') = js ''/x''"
  "join (js ''..'') (js ''../x'') = js ''../../x''"
  by (simp_all add: join_def normalizePath_def normalizeString_def normStep_def Let_def js_def)

lemma loadDb_dbPayload:
  assumes "\<forall>kc\<in>set cs. cId (snd kc) = fst kc \<and> fst kc \<noteq> []" "distinct (map fst cs)"
  shows "\<exists>cs'. loadDb (Json (dbPayload cs)) = Some cs' \<and> map_of cs' = map_of cs"
proof -
  have "loadDb (Json (dbPayload cs)) = Some (foldl loadChunk [] (map (chunkToJson \<circ> snd) cs))"
    by (simp add: loadDb_def dbPayload_def field_def js_def)
  then show ?thesis
    using assms by (simp add: foldl_loadChunk_saved map_of_foldl_update)
qed

lemma loadIndex_indexPayload:
  assumes "distinct (map fst fs)"
  shows "\<exists>fs'. loadIndex (Json (indexPayload now fs)) = Some (fs', Some now) \<and> map_of fs' = map_of fs"
proof -
  have "loadIndex (Json (indexPayload now fs)) =
          Some (foldl loadState [] (map (\<lambda>(p, st). (p, stateToJson st)) fs), Some now)"
    by (simp add: loadIndex_def indexPayload_def field_def objectEntries_def js_def)
  then show ?thesis
    using assms by (simp add: foldl_loadState_saved map_of_foldl_update)
qed

text \<open>
  Claim C9. When \<open>saveToDisk\<close> resolves, loading from the same folder gives maps with
  the same lookups as the chunks map and the file-state map that were saved, whatever the
  order of their entries. The maps are JavaScript \<open>Map\<close>s (their keys are distinct);
  each chunk is stored under its own non-empty id; numbers are finite.
\<close>

theorem save_load_roundtrip:
  assumes "\<forall>kc\<in>set cs. cId (snd kc) = fst kc \<and> fst kc \<noteq> []"
      and "distinct (map fst cs)" and "distinct (map fst fs)"
      and ok: "fst (saveToDisk mk wr now d folder cs fs) = None"
  shows "map_of (lrChunks (loadFromDisk (snd (saveToDisk mk wr now d folder cs fs)) folder))
           = map_of cs
       \<and> map_of (lrFileStates (loadFromDisk (snd (saveToDisk mk wr now d folder cs fs)) folder))
           = map_of fs
       \<and> lrLastIndexedAt (loadFromDisk (snd (saveToDisk mk wr now d folder cs fs)) folder)
           = Some now"
proof -
  let ?d = "snd (saveToDisk mk wr now d folder cs fs)"
  from ok have m: "mk (ragDir folder) = None"
    by (cases "mk (ragDir folder)") (simp_all add: saveToDisk_def)
  from ok m have w1: "wr (dbPath folder) = None"
    by (cases "wr (dbPath folder)") (simp_all add: saveToDisk_def Let_def)
  from ok m w1 have w2: "wr (indexPath folder) = None"
    by (simp add: saveToDisk_def Let_def)
  have r1: "readStoreFile ?d (dbPath folder) = Json (dbPayload cs)"
    using dbPath_neq_indexPath[of folder] by (simp add: readStoreFile_def saveToDisk_def m w1 w2)
  have r2: "readStoreFile ?d (indexPath folder) = Json (indexPayload now fs)"
    by (simp add: readStoreFile_def saveToDisk_def m w1 w2)
  from loadDb_dbPayload[OF assms(1,2)] obtain cs' where
    cs': "loadDb (Json (dbPayload cs)) = Some cs'" "map_of cs' = map_of cs" by blast
  from loadIndex_indexPayload[OF assms(3)] obtain fs' where
    fs': "loadIndex (Json (indexPayload now fs)) = Some (fs', Some now)" "map_of fs' = map_of fs" by blast
  show ?thesis using cs' fs' by (simp add: loadFromDisk_def r1 r2)
qed

theorem save_load_roundtrip_witness:
  "distinct (map fst [(js ''a.md::0'',
        \<lparr>cId = js ''a.md::0'', cFilePath = js ''a.md'', cModifiedAt = 7, cContent = js ''alpha'',
         cEmbedding = [1, 0], cSymbols = None\<rparr>)])
   \<and> fst (saveToDisk (\<lambda>_. None) (\<lambda>_. None) 9 Map.empty (js ''/p'')
        [(js ''a.md::0'',
          \<lparr>cId = js ''a.md::0'', cFilePath = js ''a.md'', cModifiedAt = 7, cContent = js ''alpha'',
           cEmbedding = [1, 0], cSymbols = None\<rparr>)]
        [(js ''a.md'',
          \<lparr>sModifiedAt = 7, sSize = 5, sContentHash = js ''h'', sChunkIds = [js ''a.md::0'']\<rparr>)])
      = None
   \<and> map_of (lrChunks (loadFromDisk (snd (saveToDisk (\<lambda>_. None) (\<lambda>_. None) 9 Map.empty (js ''/p'')
        [(js ''a.md::0'',
          \<lparr>cId = js ''a.md::0'', cFilePath = js ''a.md'', cModifiedAt = 7, cContent = js ''alpha'',
           cEmbedding = [1, 0], cSymbols = None\<rparr>)]
        [(js ''a.md'',
          \<lparr>sModifiedAt = 7, sSize = 5, sContentHash = js ''h'', sChunkIds = [js ''a.md::0'']\<rparr>)]))
        (js ''/p''))) (js ''a.md::0'')
      = Some \<lparr>cId = js ''a.md::0'', cFilePath = js ''a.md'', cModifiedAt = 7, cContent = js ''alpha'',
         cEmbedding = [1, 0], cSymbols = None\<rparr>
   \<and> map_of (lrFileStates (loadFromDisk (snd (saveToDisk (\<lambda>_. None) (\<lambda>_. None) 9 Map.empty (js ''/p'')
        [(js ''a.md::0'',
          \<lparr>cId = js ''a.md::0'', cFilePath = js ''a.md'', cModifiedAt = 7, cContent = js ''alpha'',
           cEmbedding = [1, 0], cSymbols = None\<rparr>)]
        [(js ''a.md'',
          \<lparr>sModifiedAt = 7, sSize = 5, sContentHash = js ''h'', sChunkIds = [js ''a.md::0'']\<rparr>)]))
        (js ''/p''))) (js ''a.md'')
      = Some \<lparr>sModifiedAt = 7, sSize = 5, sContentHash = js ''h'', sChunkIds = [js ''a.md::0'']\<rparr>"
proof -
  let ?c = "\<lparr>cId = js ''a.md::0'', cFilePath = js ''a.md'', cModifiedAt = 7, cContent = js ''alpha'',
         cEmbedding = [1, 0], cSymbols = None\<rparr>"
  let ?s = "\<lparr>sModifiedAt = 7, sSize = 5, sContentHash = js ''h'', sChunkIds = [js ''a.md::0'']\<rparr>"
  have h1: "\<forall>kc\<in>set [(js ''a.md::0'', ?c)]. cId (snd kc) = fst kc \<and> fst kc \<noteq> []"
    by (simp add: js_def)
  have h2: "distinct (map fst [(js ''a.md::0'', ?c)])" by simp
  have h3: "distinct (map fst [(js ''a.md'', ?s)])" by simp
  have h4: "fst (saveToDisk (\<lambda>_. None) (\<lambda>_. None) 9 Map.empty (js ''/p'')
                   [(js ''a.md::0'', ?c)] [(js ''a.md'', ?s)]) = None"
    by (simp add: saveToDisk_def Let_def)
  from save_load_roundtrip[OF h1 h2 h3 h4] h2 h4
  show ?thesis by simp
qed

section \<open>Properties of the LSH index\<close>

lemma map_of_in_values: "map_of cs k = Some v \<Longrightarrow> v \<in> snd ` set cs"
  by (force dest: map_of_SomeD)

lemma query_values:
  "query opts idx q cs = Some pool \<Longrightarrow> set pool \<subseteq> snd ` set cs"
  by (auto simp: query_def Let_def split: if_splits option.splits dest: map_of_in_values[OF sym])

lemma searchPool_subset: "set (searchPool cache q) \<subseteq> snd ` set (chunks cache)"
  by (auto simp: searchPool_def split: option.splits dest!: query_values)

text \<open>
  Claim C8. \<open>LshIndex.query\<close> returns \<open>null\<close> when the length of the query
  embedding differs from \<open>index.dimensions\<close>, and when the gathered candidate set has
  fewer than \<open>fallbackMinCandidates\<close> elements; in the searcher a \<open>null\<close> result
  makes the pool that is ranked the list of all chunks.
\<close>

theorem lsh_query_null_fallback:
  "(length queryEmbedding \<noteq> dimensions idx \<longrightarrow> query opts idx queryEmbedding cs = None)
   \<and> (length (candidatesById opts idx queryEmbedding) < fallbackMinCandidates opts \<longrightarrow>
        query opts idx queryEmbedding cs = None)
   \<and> (annIndex cache = Some idx \<and> query defaultLshOptions idx queryEmbedding (chunks cache) = None \<longrightarrow>
        searchPool cache queryEmbedding = map snd (chunks cache))"
  by (auto simp: query_def searchPool_def Let_def)

lemma ex_cands:
  "candidatesById defaultLshOptions
     \<lparr>dimensions = 3, projection = [[1, 0, 0]], buckets = [([0x31], [js ''c1''])]\<rparr> [1, 0, 0]
   = [js ''c1'']"
  by (simp add: candidatesById_def signatureForEmbedding_def rowDot_def buildNearbySignatures_def
        defaultLshOptions_def flipSignatureBits_def setAdd_def hammingDistance_def js_def Let_def)


lemma decimal_digit: "n < 10 \<Longrightarrow> decimal n = [digitChars ! n]"
  by (subst decimal.simps) simp

theorem lsh_query_null_fallback_witness:
  "query defaultLshOptions
     \<lparr>dimensions = 3, projection = [[1, 0, 0]], buckets = [([0x31], [js ''c1''])]\<rparr> [1, 2]
     [(js ''c1'', exChunk (js ''c1'') 0 [1, 0, 0])] = None
   \<and> candidatesById defaultLshOptions
       \<lparr>dimensions = 3, projection = [[1, 0, 0]], buckets = [([0x31], [js ''c1''])]\<rparr> [1, 0, 0]
     = [js ''c1'']
   \<and> query defaultLshOptions
       \<lparr>dimensions = 3, projection = [[1, 0, 0]], buckets = [([0x31], [js ''c1''])]\<rparr> [1, 0, 0]
       [(js ''c1'', exChunk (js ''c1'') 0 [1, 0, 0])] = None
   \<and> searchPool
       ((exCache (js ''/a'') [(js ''c1'', exChunk (js ''c1'') 0 [1, 0, 0])] [])
          \<lparr>annIndex := Some \<lparr>dimensions = 3, projection = [[1, 0, 0]],
                              buckets = [([0x31], [js ''c1''])]\<rparr>\<rparr>) [1, 0, 0]
     = [exChunk (js ''c1'') 0 [1, 0, 0]]"
proof -
  let ?idx = "\<lparr>dimensions = 3, projection = [[1, 0, 0]], buckets = [([0x31], [js ''c1''])]\<rparr>"
  let ?cs = "[(js ''c1'', exChunk (js ''c1'') 0 [1, 0, 0])]"
  let ?cache = "(exCache (js ''/a'') ?cs [])\<lparr>annIndex := Some ?idx\<rparr>"
  note t1 = lsh_query_null_fallback[of "[1, 2]" ?idx defaultLshOptions ?cs ?cache]
  note t2 = lsh_query_null_fallback[of "[1, 0, 0]" ?idx defaultLshOptions ?cs ?cache]
  have a: "query defaultLshOptions ?idx [1, 2] ?cs = None" using t1 by simp
  have c: "candidatesById defaultLshOptions ?idx [1, 0, 0] = [js ''c1'']" by (rule ex_cands)
  have b: "query defaultLshOptions ?idx [1, 0, 0] ?cs = None"
    using t2 c by (simp add: defaultLshOptions_def)
  have d: "searchPool ?cache [1, 0, 0] = [exChunk (js ''c1'') 0 [1, 0, 0]]"
    using t2 b by (simp add: exCache_def)
  from a b c d show ?thesis by blast
qed

section \<open>Properties of the searcher\<close>

lemma lruGet_empty: "lruGet now key (c\<lparr>entries := []\<rparr>) = (None, c\<lparr>entries := []\<rparr>)"
  by (simp add: lruGet_def)

lemma getQueryEmbedding_cong:
  assumes "embeddingCache s = embeddingCache s'"
  shows "fst (getQueryEmbedding env k q (s, t)) = fst (getQueryEmbedding env k q (s', t))
       \<and> snd (snd (getQueryEmbedding env k q (s, t))) = snd (snd (getQueryEmbedding env k q (s', t)))"
  using assms
  by (simp add: getQueryEmbedding_def Let_def split: option.splits sum.splits list.splits)

lemma getRankedChunks_unusable:
  assumes "normalizeQuery env rawQuery \<noteq> []"
      and "\<not> usableCached cache topK (fst (lruGet (dateNow env t) (normalizeQuery env rawQuery) (resultCache s)))"
  shows "fst (getRankedChunks env cache rawQuery topK (s, t)) =
     (case getQueryEmbedding env (normalizeQuery env rawQuery) (trim rawQuery) (s, t) of
        (Inl err, _) \<Rightarrow> Inl err
      | (Inr None, _) \<Rightarrow> Inr []
      | (Inr (Some queryEmbedding), _) \<Rightarrow>
          Inr (take topK (rankPool (searchPool cache queryEmbedding) queryEmbedding
                           (max topK QUERY_RESULT_CACHE_TOP_K))))"
proof -
  let ?k = "normalizeQuery env rawQuery"
  let ?s1 = "s\<lparr>resultCache := snd (lruGet (dateNow env t) ?k (resultCache s))\<rparr>"
  have e: "embeddingCache ?s1 = embeddingCache s" by simp
  obtain r s2 t2 where g: "getQueryEmbedding env ?k (trim rawQuery) (?s1, t) = (r, s2, t2)"
    by (cases "getQueryEmbedding env ?k (trim rawQuery) (?s1, t)") auto
  obtain r' s2' t2' where g': "getQueryEmbedding env ?k (trim rawQuery) (s, t) = (r', s2', t2')"
    by (cases "getQueryEmbedding env ?k (trim rawQuery) (s, t)") auto
  from getQueryEmbedding_cong[OF e, of env ?k "trim rawQuery" t] g g' have rr: "r = r'" by simp
  show ?thesis
    using assms g
    by (simp add: getRankedChunks_def Let_def g' rr split: sum.splits option.splits)
qed

text \<open>
  Claim C6. A cached ranking whose revision differs from the folder's \<open>indexRevision\<close>
  (or whose list is shorter than \<open>topK\<close>) takes no part in the result of
  \<open>getRankedChunks\<close>: the result is the one a searcher with an empty result cache
  returns. Whenever the result differs from that, the cache held a ranking with the
  current revision and at least \<open>topK\<close> ids, and the result is that ranking.
\<close>

theorem stale_ranking_never_served:
  "(\<forall>r. fst (lruGet (dateNow env t) (normalizeQuery env rawQuery) (resultCache s)) = Some r
        \<and> (rkRevision r \<noteq> indexRevision cache \<or> length (rkChunkIds r) < topK) \<longrightarrow>
      fst (getRankedChunks env cache rawQuery topK (s, t)) =
      fst (getRankedChunks env cache rawQuery topK
             (s\<lparr>resultCache := (resultCache s)\<lparr>entries := []\<rparr>\<rparr>, t)))
   \<and> (fst (getRankedChunks env cache rawQuery topK (s, t)) \<noteq>
      fst (getRankedChunks env cache rawQuery topK
             (s\<lparr>resultCache := (resultCache s)\<lparr>entries := []\<rparr>\<rparr>, t)) \<longrightarrow>
      (\<exists>r. fst (lruGet (dateNow env t) (normalizeQuery env rawQuery) (resultCache s)) = Some r
        \<and> rkRevision r = indexRevision cache \<and> length (rkChunkIds r) \<ge> topK
        \<and> fst (getRankedChunks env cache rawQuery topK (s, t)) = Inr (cachedRanked cache r topK)))"
proof -
  let ?k = "normalizeQuery env rawQuery"
  let ?got = "fst (lruGet (dateNow env t) ?k (resultCache s))"
  let ?s0 = "s\<lparr>resultCache := (resultCache s)\<lparr>entries := []\<rparr>\<rparr>"
  have unusable: "fst (getRankedChunks env cache rawQuery topK (s, t)) =
      fst (getRankedChunks env cache rawQuery topK (?s0, t))" if u: "\<not> usableCached cache topK ?got"
  proof (cases "?k = []")
    case True
    then show ?thesis by (simp add: getRankedChunks_def)
  next
    case False
    have u0: "\<not> usableCached cache topK (fst (lruGet (dateNow env t) ?k (resultCache ?s0)))"
      by (simp add: lruGet_empty usableCached_def)
    have e: "embeddingCache ?s0 = embeddingCache s" by simp
    obtain r s2 t2 where g: "getQueryEmbedding env ?k (trim rawQuery) (s, t) = (r, s2, t2)"
      by (cases "getQueryEmbedding env ?k (trim rawQuery) (s, t)") auto
    obtain r' s2' t2' where g': "getQueryEmbedding env ?k (trim rawQuery) (?s0, t) = (r', s2', t2')"
      by (cases "getQueryEmbedding env ?k (trim rawQuery) (?s0, t)") auto
    from getQueryEmbedding_cong[OF e, of env ?k "trim rawQuery" t] g g' have rr: "r' = r" by simp
    show ?thesis
      unfolding getRankedChunks_unusable[OF False u] getRankedChunks_unusable[OF False u0]
      by (simp add: g g' rr)
  qed
  have p1: "\<forall>r. ?got = Some r \<and> (rkRevision r \<noteq> indexRevision cache \<or> length (rkChunkIds r) < topK) \<longrightarrow>
      fst (getRankedChunks env cache rawQuery topK (s, t)) =
      fst (getRankedChunks env cache rawQuery topK (?s0, t))"
  proof (intro allI impI)
    fix r assume a: "?got = Some r \<and> (rkRevision r \<noteq> indexRevision cache \<or> length (rkChunkIds r) < topK)"
    then have "\<not> usableCached cache topK ?got" by (auto simp: usableCached_def)
    then show "fst (getRankedChunks env cache rawQuery topK (s, t)) =
      fst (getRankedChunks env cache rawQuery topK (?s0, t))" by (rule unusable)
  qed
  have p2: "\<exists>r. ?got = Some r \<and> rkRevision r = indexRevision cache \<and> length (rkChunkIds r) \<ge> topK
        \<and> fst (getRankedChunks env cache rawQuery topK (s, t)) = Inr (cachedRanked cache r topK)"
    if d: "fst (getRankedChunks env cache rawQuery topK (s, t)) \<noteq>
      fst (getRankedChunks env cache rawQuery topK (?s0, t))"
  proof -
    from d unusable have u: "usableCached cache topK ?got" by blast
    then obtain r where r: "?got = Some r" "rkRevision r = indexRevision cache" "length (rkChunkIds r) \<ge> topK"
      by (auto simp: usableCached_def split: option.splits)
    have k: "?k \<noteq> []" using d by (auto simp: getRankedChunks_def)
    have "fst (getRankedChunks env cache rawQuery topK (s, t)) = Inr (cachedRanked cache r topK)"
      using k u r(1) by (simp add: getRankedChunks_def Let_def)
    with r show ?thesis by blast
  qed
  from p1 p2 show ?thesis by blast
qed


theorem stale_ranking_never_served_witness:
  "fst (lruGet (dateNow (exEnv [] None None) 0) (normalizeQuery (exEnv [] None None) (js ''q''))
         \<lparr>entries = [(js ''q'', (\<lparr>rkChunkIds = [js ''zz''], rkScores = [1], rkRevision = 0\<rparr>, 0))],
          maxEntries = 64, ttlMs = 600000\<rparr>)
     = Some \<lparr>rkChunkIds = [js ''zz''], rkScores = [1], rkRevision = 0\<rparr>
   \<and> rkRevision \<lparr>rkChunkIds = [js ''zz''], rkScores = [1], rkRevision = 0\<rparr>
       \<noteq> indexRevision (exCache (js ''/a'') [(js ''a.md::0'', exChunk (js ''a.md'') 0 [1])] [])
   \<and> fst (getRankedChunks (exEnv [] None None)
            (exCache (js ''/a'') [(js ''a.md::0'', exChunk (js ''a.md'') 0 [1])] [])
            (js ''q'') 1
            (newSearcher\<lparr>resultCache :=
               \<lparr>entries = [(js ''q'', (\<lparr>rkChunkIds = [js ''zz''], rkScores = [1], rkRevision = 0\<rparr>, 0))],
                maxEntries = 64, ttlMs = 600000\<rparr>\<rparr>, 0))
     = Inr [\<lparr>rChunk = exChunk (js ''a.md'') 0 [1], rScore = 1\<rparr>]"
proof -
  let ?env = "exEnv [] None None"
  let ?r = "\<lparr>rkChunkIds = [js ''zz''], rkScores = [1], rkRevision = 0\<rparr>"
  let ?rc = "\<lparr>entries = [(js ''q'', (?r, 0))], maxEntries = 64, ttlMs = 600000\<rparr>"
  let ?cache = "exCache (js ''/a'') [(js ''a.md::0'', exChunk (js ''a.md'') 0 [1])] []"
  let ?s = "newSearcher\<lparr>resultCache := ?rc\<rparr>"
  have k: "normalizeQuery ?env (js ''q'') = js ''q''"
    by (simp add: normalizeQuery_def exEnv_def collapseWhitespace_def trim_def trimStart_def
          trimEnd_def isWhitespace_def js_def)
  have g: "fst (lruGet (dateNow ?env 0) (normalizeQuery ?env (js ''q'')) (resultCache ?s)) = Some ?r"
    unfolding k by (simp add: lruGet_def exEnv_def)
  have n: "rkRevision ?r \<noteq> indexRevision ?cache" by (simp add: exCache_def)
  have fresh: "fst (getRankedChunks ?env ?cache (js ''q'') 1
                 (?s\<lparr>resultCache := (resultCache ?s)\<lparr>entries := []\<rparr>\<rparr>, 0))
               = Inr [\<lparr>rChunk = exChunk (js ''a.md'') 0 [1], rScore = 1\<rparr>]"
    unfolding getRankedChunks_def k
    by (simp add: Let_def lruGet_def usableCached_def getQueryEmbedding_def newSearcher_def
          exEnv_def searchPool_def exCache_def newCache_def rankPool_def cosineSimilarity_def
          exChunk_def js_def)
  from stale_ranking_never_served[of ?env 0 "js ''q''" ?s ?cache 1] g n fresh
  have "fst (getRankedChunks ?env ?cache (js ''q'') 1 (?s, 0))
          = Inr [\<lparr>rChunk = exChunk (js ''a.md'') 0 [1], rScore = 1\<rparr>]"
    by auto
  with g n show ?thesis by simp
qed

lemma rankPool_nonpositive:
  "\<forall>c\<in>set pool. cosineSimilarity v (cEmbedding c) \<le> 0 \<Longrightarrow> rankPool pool v n = []"
proof -
  assume a: "\<forall>c\<in>set pool. cosineSimilarity v (cEmbedding c) \<le> 0"
  have "filter (\<lambda>item. rScore item > 0)
          (map (\<lambda>c. \<lparr>rChunk = c, rScore = cosineSimilarity v (cEmbedding c)\<rparr>) pool) = []"
    using a by (induction pool) auto
  then show ?thesis by (simp add: rankPool_def)
qed

lemma contextForCache_guard:
  "\<not> configEnabled cache \<or> chunks cache = [] \<or> trim q = [] \<Longrightarrow>
     fst (contextForCache env cache q w) = Inr []"
  by (auto simp: contextForCache_def)

lemma contextForCache_no_score:
  assumes u: "\<not> usableCached cache TOP_K
                 (fst (lruGet (dateNow env t) (normalizeQuery env q) (resultCache s)))"
      and g: "fst (getQueryEmbedding env (normalizeQuery env q) (trim q) (s, t)) = Inr (Some v)"
      and n: "\<forall>c\<in>snd ` set (chunks cache). cosineSimilarity v (cEmbedding c) \<le> 0"
  shows "fst (contextForCache env cache q (s, t)) = Inr []"
proof (cases "\<not> configEnabled cache \<or> chunks cache = [] \<or> trim q = []")
  case True
  then show ?thesis by (rule contextForCache_guard)
next
  case False
  have r: "fst (getRankedChunks env cache q TOP_K (s, t)) = Inr []"
  proof (cases "normalizeQuery env q = []")
    case True
    then show ?thesis by (simp add: getRankedChunks_def)
  next
    case k: False
    have "\<forall>c\<in>set (searchPool cache v). cosineSimilarity v (cEmbedding c) \<le> 0"
      using n searchPool_subset[of cache v] by blast
    then have "rankPool (searchPool cache v) v (max TOP_K QUERY_RESULT_CACHE_TOP_K) = []"
      by (rule rankPool_nonpositive)
    then show ?thesis
      using g unfolding getRankedChunks_unusable[OF k u]
      by (cases "getQueryEmbedding env (normalizeQuery env q) (trim q) (s, t)") simp
  qed
  obtain s' t' where "getRankedChunks env cache q TOP_K (s, t) = (Inr [], s', t')"
    using r by (cases "getRankedChunks env cache q TOP_K (s, t)") auto
  then show ?thesis using False by (simp add: contextForCache_def)
qed


lemma fst_getContextForQuery:
  "fst (getContextForQuery env folder q (s, w)) =
     fst (contextForCache env (fst (ensureLoaded env folder w)) q
            (s, wClock (snd (ensureLoaded env folder w))))"
  by (simp add: getContextForQuery_def Let_def split: prod.splits)

text \<open>
  Where \<open>getContextForQuery\<close> does return the empty string. It does, and raises nothing,
  when the folder is not enabled, or its chunks map is empty, or the query trims to
  empty. It also does when the result cache holds no usable ranking for the query (none
  with the current \<open>indexRevision\<close> and at least \<open>TOP_K\<close> ids), the query embedding is
  obtained, and no chunk attains a strictly positive cosine score against it. \<open>cache\<close> is
  the folder's cache as \<open>ensureLoaded\<close> returns it.
\<close>

lemma getContextForQuery_empty:
  assumes "cache = fst (ensureLoaded env folder w)"
      and "t = wClock (snd (ensureLoaded env folder w))"
  shows "(\<not> configEnabled cache \<or> chunks cache = [] \<or> trim q = [] \<longrightarrow>
            fst (getContextForQuery env folder q (s, w)) = Inr [])
       \<and> (\<not> usableCached cache TOP_K
               (fst (lruGet (dateNow env t) (normalizeQuery env q) (resultCache s)))
          \<and> fst (getQueryEmbedding env (normalizeQuery env q) (trim q) (s, t)) = Inr (Some v)
          \<and> (\<forall>c\<in>snd ` set (chunks cache). cosineSimilarity v (cEmbedding c) \<le> 0) \<longrightarrow>
            fst (getContextForQuery env folder q (s, w)) = Inr [])"
proof (intro conjI impI)
  assume "\<not> configEnabled cache \<or> chunks cache = [] \<or> trim q = []"
  then show "fst (getContextForQuery env folder q (s, w)) = Inr []"
    unfolding fst_getContextForQuery assms by (rule contextForCache_guard)
next
  assume a: "\<not> usableCached cache TOP_K
               (fst (lruGet (dateNow env t) (normalizeQuery env q) (resultCache s)))
          \<and> fst (getQueryEmbedding env (normalizeQuery env q) (trim q) (s, t)) = Inr (Some v)
          \<and> (\<forall>c\<in>snd ` set (chunks cache). cosineSimilarity v (cEmbedding c) \<le> 0)"
  show "fst (getContextForQuery env folder q (s, w)) = Inr []"
    unfolding fst_getContextForQuery
    using a[unfolded assms]
    by (intro contextForCache_no_score[where v = v]) simp_all
qed

lemma ex_normalizeQuery: "normalizeQuery (exEnv fs a r) (js ''q'') = js ''q''"
  by (simp add: normalizeQuery_def exEnv_def collapseWhitespace_def trim_def trimStart_def
        trimEnd_def isWhitespace_def js_def)

lemma ex_trim: "trim (js ''q'') = js ''q''"
  by (simp add: trim_def trimStart_def trimEnd_def isWhitespace_def js_def)

lemma ex_ensureLoaded:
  "ensureLoaded env (js ''/b'')
     \<lparr>wCaches = [(js ''/b'', exCache (js ''/b'') cs fs)], wDisk = d, wClock = n\<rparr>
   = (exCache (js ''/b'') cs fs,
      \<lparr>wCaches = [(js ''/b'', exCache (js ''/b'') cs fs)], wDisk = d, wClock = n\<rparr>)"
  by (simp add: ensureLoaded_def ensureCache_def normalizeFolderPath_def js_def
        ensurePersistedLoaded_def exCache_def Let_def)

lemma ex_getContextForQuery_empty:
  "configEnabled (exCache (js ''/b'') [(js ''a.md::0'', exChunk (js ''a.md'') 0 [- 1])] [])
   \<and> chunks (exCache (js ''/b'') [(js ''a.md::0'', exChunk (js ''a.md'') 0 [- 1])] []) \<noteq> []
   \<and> trim (js ''q'') \<noteq> []
   \<and> fst (getQueryEmbedding (exEnv [] None None) (normalizeQuery (exEnv [] None None) (js ''q''))
            (trim (js ''q'')) (newSearcher, 0)) = Inr (Some [1])
   \<and> cosineSimilarity [1] (cEmbedding (exChunk (js ''a.md'') 0 [- 1])) \<le> 0
   \<and> fst (getContextForQuery (exEnv [] None None) (js ''/b'') (js ''q'')
            (newSearcher,
             \<lparr>wCaches = [(js ''/b'',
                  exCache (js ''/b'') [(js ''a.md::0'', exChunk (js ''a.md'') 0 [- 1])] [])],
              wDisk = Map.empty, wClock = 0\<rparr>)) = Inr []"
proof -
  let ?env = "exEnv [] None None"
  let ?cache = "exCache (js ''/b'') [(js ''a.md::0'', exChunk (js ''a.md'') 0 [- 1])] []"
  let ?w = "\<lparr>wCaches = [(js ''/b'', ?cache)], wDisk = Map.empty, wClock = 0\<rparr>"
  have l1: "?cache = fst (ensureLoaded ?env (js ''/b'') ?w)" by (simp add: ex_ensureLoaded)
  have l2: "0 = wClock (snd (ensureLoaded ?env (js ''/b'') ?w))" by (simp add: ex_ensureLoaded)
  have a: "configEnabled ?cache" "chunks ?cache \<noteq> []" by (simp_all add: exCache_def)
  have b: "trim (js ''q'') \<noteq> []" unfolding ex_trim by (simp add: js_def)
  have u: "\<not> usableCached ?cache TOP_K
             (fst (lruGet (dateNow ?env 0) (normalizeQuery ?env (js ''q'')) (resultCache newSearcher)))"
    by (simp add: usableCached_def lruGet_def newSearcher_def)
  have g: "fst (getQueryEmbedding ?env (normalizeQuery ?env (js ''q'')) (trim (js ''q'')) (newSearcher, 0))
             = Inr (Some [1])"
    by (simp add: getQueryEmbedding_def lruGet_def newSearcher_def exEnv_def Let_def)
  have c: "cosineSimilarity [1] (cEmbedding (exChunk (js ''a.md'') 0 [- 1])) \<le> 0"
    by (simp add: cosineSimilarity_def exChunk_def)
  have n: "\<forall>c\<in>snd ` set (chunks ?cache). cosineSimilarity [1] (cEmbedding c) \<le> 0"
    using c by (simp add: exCache_def)
  note th = getContextForQuery_empty[OF l1 l2, of "js ''q''" newSearcher "[1]", THEN conjunct2, rule_format]
  have r: "fst (getContextForQuery ?env (js ''/b'') (js ''q'') (newSearcher, ?w)) = Inr []"
    by (rule th[OF conjI[OF u conjI[OF g n]]])
  show ?thesis by (intro conjI a b g c r)
qed

lemma search_caches_ranking:
  "snd (search (exEnv [] None None) (js ''/a'') (js ''q'') None (newSearcher, exTwoFolders)) =
     (\<lparr>embeddingCache = \<lparr>entries = [(js ''q'', ([1], 1))], maxEntries = 128, ttlMs = 600000\<rparr>,
       resultCache = \<lparr>entries = [(js ''q'',
           (\<lparr>rkChunkIds = map fst exSixChunks, rkScores = [1, 1, 1, 1, 1, 1], rkRevision = 1\<rparr>, 1))],
          maxEntries = 64, ttlMs = 600000\<rparr>\<rparr>,
      exTwoFolders\<lparr>wClock := 1\<rparr>)"
  by (simp add: search_def ensureLoaded_def ensureCache_def normalizeFolderPath_def
        ensurePersistedLoaded_def exTwoFolders_def exCache_def newCache_def Let_def
        searchCache_def TOP_K_def getRankedChunks_def normalizeQuery_def collapseWhitespace_def
        trim_def trimStart_def trimEnd_def isWhitespace_def exEnv_def lruGet_def newSearcher_def
        usableCached_def getQueryEmbedding_def lruSet_def evict_def searchPool_def rankPool_def
        cosineSimilarity_def exChunk_def QUERY_RESULT_CACHE_TOP_K_def QUERY_EMBED_CACHE_MAX_def
        QUERY_RESULT_CACHE_MAX_def QUERY_CACHE_TTL_MS_def exSixChunks_def chunkIdFor_def
        decimal_digit digitChars_def js_def)


text \<open>
  Claim C10 against the code. The result cache of the searcher is keyed by the normalised
  query alone, and each folder counts its own revisions. After \<open>search("/a", "q")\<close> has
  cached a ranking of six ids at revision 1, \<open>getContextForQuery("/b", "q")\<close> finds that
  ranking, sees revision 1 on \<open>/b\<close> as well, and returns the chunk \<open>a.md::0\<close> of
  \<open>/b\<close>, whose cosine score against the query embedding \<open>[1]\<close> is \<open>-1\<close>. The same call
  with a searcher whose caches are empty returns the empty string.
\<close>

theorem getContextForQuery_serves_ranking_of_other_folder:
  "map_of (wCaches exTwoFolders) (js ''/b'') =
     Some (exCache (js ''/b'') [(chunkIdFor (js ''a.md'') 0, exChunk (js ''a.md'') 0 [- 1])] [])
   \<and> embed (exEnv [] None None) 0 [js ''q''] = Inr [[1]]
   \<and> cosineSimilarity [1] (cEmbedding (exChunk (js ''a.md'') 0 [- 1])) = - 1
   \<and> fst (getContextForQuery (exEnv [] None None) (js ''/b'') (js ''q'')
            (newSearcher, exTwoFolders)) = Inr []
   \<and> fst (getContextForQuery (exEnv [] None None) (js ''/b'') (js ''q'')
            (snd (search (exEnv [] None None) (js ''/a'') (js ''q'') None
                    (newSearcher, exTwoFolders))))
     = Inr (js ''## RAG Context (project files)'' @ [LF]
            @ js ''Use the following snippets as additional project context when relevant:''
            @ [LF, LF] @ js ''### a.md'' @ [LF] @ js ''alpha'')"
proof -
  have a: "map_of (wCaches exTwoFolders) (js ''/b'') =
     Some (exCache (js ''/b'') [(chunkIdFor (js ''a.md'') 0, exChunk (js ''a.md'') 0 [- 1])] [])"
    by (simp add: exTwoFolders_def js_def)
  have b: "embed (exEnv [] None None) 0 [js ''q''] = Inr [[1]]" by (simp add: exEnv_def)
  have c: "cosineSimilarity [1] (cEmbedding (exChunk (js ''a.md'') 0 [- 1])) = - 1"
    by (simp add: cosineSimilarity_def exChunk_def)
  have e: "fst (getContextForQuery (exEnv [] None None) (js ''/b'') (js ''q'')
            (newSearcher, exTwoFolders)) = Inr []"
    by (simp add: getContextForQuery_def ensureLoaded_def ensureCache_def normalizeFolderPath_def
        ensurePersistedLoaded_def exTwoFolders_def exCache_def newCache_def Let_def
        contextForCache_def TOP_K_def getRankedChunks_def normalizeQuery_def collapseWhitespace_def
        trim_def trimStart_def trimEnd_def isWhitespace_def exEnv_def lruGet_def newSearcher_def
        usableCached_def getQueryEmbedding_def lruSet_def evict_def searchPool_def rankPool_def
        cosineSimilarity_def exChunk_def QUERY_RESULT_CACHE_TOP_K_def QUERY_EMBED_CACHE_MAX_def
        QUERY_RESULT_CACHE_MAX_def QUERY_CACHE_TTL_MS_def chunkIdFor_def
        decimal_digit digitChars_def js_def)
  have d: "fst (getContextForQuery (exEnv [] None None) (js ''/b'') (js ''q'')
            (snd (search (exEnv [] None None) (js ''/a'') (js ''q'') None
                    (newSearcher, exTwoFolders))))
     = Inr (js ''## RAG Context (project files)'' @ [LF]
            @ js ''Use the following snippets as additional project context when relevant:''
            @ [LF, LF] @ js ''### a.md'' @ [LF] @ js ''alpha'')"
    unfolding search_caches_ranking
    by (simp add: getContextForQuery_def ensureLoaded_def ensureCache_def normalizeFolderPath_def
        ensurePersistedLoaded_def exTwoFolders_def exCache_def newCache_def Let_def
        contextForCache_def TOP_K_def getRankedChunks_def normalizeQuery_def collapseWhitespace_def
        trim_def trimStart_def trimEnd_def isWhitespace_def exEnv_def lruGet_def
        usableCached_def cachedRanked_def exChunk_def exSixChunks_def chunkIdFor_def
        decimal_digit digitChars_def LF_def js_def)
  show ?thesis by (intro conjI a b c e d)
qed

section \<open>The indexer on concrete folders\<close>


lemma exEnv_sel:
  "scanDirectory (exEnv fs a r) = (\<lambda>_. Inr fs)"
  "readFile (exEnv fs a r) = (\<lambda>_. Inr (js ''alpha''))"
  "computeContentHash (exEnv fs a r) = (\<lambda>_. js ''h'')"
  "chunkFile (exEnv fs a r) = (\<lambda>content _. [\<lparr>rContent = content, rSymbols = None\<rparr>])"
  "embed (exEnv fs a r) = (\<lambda>_ texts. Inr (map (\<lambda>_. [1]) texts))"
  "abortAt (exEnv fs a r) = a"
  "abortReason (exEnv fs a r) = r"
  "dateNow (exEnv fs a r) = real"
  "byteSize (exEnv fs a r) = (\<lambda>_. 1)"
  "createProjection (exEnv fs a r) = (\<lambda>_ _. [])"
  "toLowerCase (exEnv fs a r) = id"
  "schedule (exEnv fs a r) = (\<lambda>_. 0)"
  "mkdir (exEnv fs a r) = (\<lambda>_ _. None)"
  "writeFile (exEnv fs a r) = (\<lambda>_ _. None)"
  by (simp_all add: exEnv_def)

text \<open>The steps of a worker pool, and the paths of the store, are computed by rewriting.\<close>

lemmas ex_pool_simps =
  runWithConcurrency_def runPool.simps activeWorkers_def resume_def embedFrom_def takeNext_def
  sliceList_def

lemmas ex_path_simps =
  dbPath_def indexPath_def ragDir_def join_def normalizePath_def normalizeString_def normStep_def
  RAG_STORAGE_DIR_def RAG_DB_FILE_def RAG_INDEX_FILE_def

lemmas ex_paths_chars = ex_paths[unfolded js_def, simplified]

lemma ex_pool_one:
  "runWithConcurrency (exEnv fs None r) 2 16 [(f, content, h)] (c, t)
     = Some (None, upsertFile f h [\<lparr>rContent = content, rSymbols = None\<rparr>] [[1]] c, t + 3)"
  by (simp add: ex_pool_simps Let_def exEnv_sel aborted_def)

lemma index_one_file:
  "indexCache (exEnv [exFile (js ''a.md'') 1] None None)
     \<lparr>outputFolder = Some (js ''/b''), concurrency = None, embedBatchSize = None\<rparr>
     (newCache (js ''/a''), Map.empty, 0)
   = Some (None,
       \<lparr>folderPath = js ''/a'', storagePath = Some (js ''/b''), configEnabled = True,
        status = \<lparr>enabled = True, phase = Ready, totalFiles = 1, filesToEmbed = 1,
                  embeddedFiles = 1, skippedUnchanged = 0, totalChunks = 1, dbSizeBytes = 1,
                  lastIndexedAt = Some 7, fileChangeDrift = 0, driftAddedFiles = 0,
                  driftModifiedFiles = 0, driftDeletedFiles = 0, driftCheckedAt = Some 7,
                  message = Some (js ''RAG index is ready'')\<rparr>,
        chunks = [(js ''a.md::0'',
                   \<lparr>cId = js ''a.md::0'', cFilePath = js ''a.md'', cModifiedAt = 1,
                    cContent = js ''alpha'', cEmbedding = [1], cSymbols = None\<rparr>)],
        fileStates = [(js ''a.md'',
                   \<lparr>sModifiedAt = 1, sSize = 5, sContentHash = js ''h'',
                    sChunkIds = [js ''a.md::0'']\<rparr>)],
        persistedLoaded = True, indexRevision = 1,
        annIndex = Some \<lparr>dimensions = 1, projection = [], buckets = [([], [js ''a.md::0''])]\<rparr>\<rparr>,
       snd (saveToDisk (\<lambda>_. None) (\<lambda>_. None) 7 Map.empty (js ''/a'')
         [(js ''a.md::0'',
           \<lparr>cId = js ''a.md::0'', cFilePath = js ''a.md'', cModifiedAt = 1,
            cContent = js ''alpha'', cEmbedding = [1], cSymbols = None\<rparr>)]
         [(js ''a.md'',
           \<lparr>sModifiedAt = 1, sSize = 5, sContentHash = js ''h'', sChunkIds = [js ''a.md::0'']\<rparr>)]),
       9)"
  by (simp add: indexCache_def indexBody_def detectChanges_def ensurePersistedLoaded_def loadFromDisk_def
        readStoreFile_def loadDb_def loadIndex_def newCache_def initialStatus_def
        rebuildAnnIndex_def build_def getDbSizeBytes_def exEnv_sel
        Let_def aborted_def unchangedMeta_def exFile_def EMBED_BATCH_SIZE_def
        FILE_EMBED_CONCURRENCY_def ex_pool_one upsertFile_def insertChunk_def
        finishIndex_def saveToDisk_def chunkIdFor_def decimal_digit digitChars_def
        normalizeFolderPath_def defaultLshOptions_def addToBucket_def signatureForEmbedding_def
        ex_paths_chars js_def)



text \<open>
  Claim C1 against the code. \<open>index("/a", {outputFolder: "/b"})\<close> on a folder with one
  file \<open>a.md\<close> ends with phase \<open>ready\<close> and records \<open>/b\<close> as the storage path of the
  cache, but \<open>getPaths\<close> of the store takes the folder path only: the two files are
  created under \<open>/a/.rag-ts\<close> and nothing is created under \<open>/b\<close>.
\<close>

theorem index_outputFolder_writes_under_folder:
  "(case index (exEnv [exFile (js ''a.md'') 1] None None) (js ''/a'')
           \<lparr>outputFolder = Some (js ''/b''), concurrency = None, embedBatchSize = None\<rparr>
           \<lparr>wCaches = [], wDisk = Map.empty, wClock = 0\<rparr> of
      None \<Rightarrow> False
    | Some (st, w') \<Rightarrow>
        phase st = Ready
        \<and> map_option storagePath (map_of (wCaches w') (js ''/a'')) = Some (Some (js ''/b''))
        \<and> wDisk w' (js ''/a/.rag-ts/.rag-db'') \<noteq> None
        \<and> wDisk w' (js ''/a/.rag-ts/.rag-index'') \<noteq> None
        \<and> wDisk w' (js ''/b/.rag-ts/.rag-db'') = None
        \<and> wDisk w' (js ''/b/.rag-ts/.rag-index'') = None)"
proof -
  have n: "normalizeFolderPath (js ''/a'') = js ''/a''"
    by (simp add: normalizeFolderPath_def js_def)
  have e: "ensureCache (js ''/a'') \<lparr>wCaches = [], wDisk = Map.empty, wClock = 0\<rparr> =
            (newCache (js ''/a''),
             \<lparr>wCaches = [(js ''/a'', newCache (js ''/a''))], wDisk = Map.empty, wClock = 0\<rparr>)"
    by (simp add: ensureCache_def n Let_def)
  show ?thesis
    unfolding index_def e n
    apply (simp add: index_one_file Let_def)
    apply (simp add: saveToDisk_def Let_def ex_paths_chars js_def)
    done
qed

section \<open>Properties of the indexing transaction\<close>

subsection \<open>Chunk ids\<close>

lemma colon_not_digit: "(0x3A :: jchar) \<notin> set digitChars"
  by (simp add: digitChars_def)

lemma digits_suffix_unique:
  assumes "p @ js ''::'' @ r = q @ js ''::'' @ r'"
      and "\<forall>ch\<in>set r. ch \<in> set digitChars" "\<forall>ch\<in>set r'. ch \<in> set digitChars"
  shows "p = q"
proof -
  have c: "js ''::'' = [0x3A, 0x3A]" by (simp add: js_def)
  have nr: "\<forall>x\<in>set (rev r). x \<noteq> 0x3A" "\<forall>x\<in>set (rev r'). x \<noteq> 0x3A"
    using assms(2,3) colon_not_digit by auto
  have t1: "takeWhile (\<lambda>x. x \<noteq> 0x3A) (rev (p @ js ''::'' @ r)) = rev r"
    using nr(1) by (simp add: c takeWhile_append2 takeWhile_tail)
  have t2: "takeWhile (\<lambda>x. x \<noteq> 0x3A) (rev (q @ js ''::'' @ r')) = rev r'"
    using nr(2) by (simp add: c takeWhile_append2 takeWhile_tail)
  from t1 t2 assms(1) have "r = r'" by simp
  with assms(1) show ?thesis by simp
qed

lemma isChunkIdOf_decompose:
  "isChunkIdOf p cid \<Longrightarrow>
     \<exists>r. cid = p @ js ''::'' @ r \<and> r \<noteq> [] \<and> (\<forall>ch\<in>set r. ch \<in> set digitChars)"
proof -
  assume a: "isChunkIdOf p cid"
  let ?n = "length p + 2"
  have "cid = take ?n cid @ drop ?n cid" by simp
  with a have "cid = (p @ js ''::'') @ drop ?n cid" by (simp add: isChunkIdOf_def)
  with a show ?thesis by (auto simp: isChunkIdOf_def)
qed

lemma isChunkIdOf_inj: "isChunkIdOf p cid \<Longrightarrow> isChunkIdOf q cid \<Longrightarrow> p = q"
  by (metis isChunkIdOf_decompose digits_suffix_unique)

lemma decimal_digits: "decimal n \<noteq> [] \<and> (\<forall>ch\<in>set (decimal n). ch \<in> set digitChars)"
proof (induction n rule: decimal.induct)
  case (1 n)
  have l: "length digitChars = 10" by (simp add: digitChars_def)
  show ?case
  proof (cases "n < 10")
    case True
    then show ?thesis using l by (subst decimal.simps, subst decimal.simps) (simp add: nth_mem)
  next
    case False
    have m: "digitChars ! (n mod 10) \<in> set digitChars" using l by (simp add: nth_mem)
    from False "1.IH" m show ?thesis
      by (subst decimal.simps, subst decimal.simps) auto
  qed
qed

lemma isChunkIdOf_chunkIdFor: "isChunkIdOf p (chunkIdFor p i)"
  using decimal_digits[of i] by (simp add: isChunkIdOf_def chunkIdFor_def js_def)

subsection \<open>Maps as association lists\<close>

lemma keys_delete: "fst ` set (AList.delete k al) = fst ` set al - {k}"
  by (induction al) auto

lemma keys_update: "fst ` set (AList.update k v al) = insert k (fst ` set al)"
  by (induction al) auto

lemma keys_removeChunks: "fst ` set (removeChunks ids cs) = fst ` set cs - set ids"
  unfolding removeChunks_def
  by (induction ids arbitrary: cs) (auto simp: keys_delete)

lemma map_of_removeChunks: "map_of (removeChunks ids cs) k = (if k \<in> set ids then None else map_of cs k)"
  unfolding removeChunks_def
  by (induction ids arbitrary: cs) (auto simp: delete_conv')

lemma in_keys_iff: "k \<in> fst ` set al \<longleftrightarrow> map_of al k \<noteq> None"
  by (simp add: map_of_eq_None_iff)

subsection \<open>The invariant\<close>

lemma cacheInv_alt:
  "cacheInv c \<longleftrightarrow>
     (\<forall>p st cid. map_of (fileStates c) p = Some st \<and> cid \<in> set (sChunkIds st) \<longrightarrow>
        cid \<in> fst ` set (chunks c) \<and> isChunkIdOf p cid)
     \<and> (\<forall>cid\<in>fst ` set (chunks c).
          \<exists>p st. map_of (fileStates c) p = Some st \<and> cid \<in> set (sChunkIds st))"
  (is "?L \<longleftrightarrow> ?A \<and> ?B")
proof
  assume l: ?L
  have a: ?A
  proof (intro allI impI)
    fix p st cid
    assume h: "map_of (fileStates c) p = Some st \<and> cid \<in> set (sChunkIds st)"
    then have "p \<in> set (map fst (fileStates c))" by (auto dest: map_of_SomeD intro: rev_image_eqI)
    with l h show "cid \<in> fst ` set (chunks c) \<and> isChunkIdOf p cid"
      unfolding cacheInv_def by force
  qed
  have b: ?B
  proof
    fix cid assume "cid \<in> fst ` set (chunks c)"
    then have "cid \<in> set (map fst (chunks c))" by simp
    with l obtain p where "p \<in> set (map fst (fileStates c))"
      "case map_of (fileStates c) p of None \<Rightarrow> False | Some st \<Rightarrow> cid \<in> set (sChunkIds st)"
      unfolding cacheInv_def by blast
    then show "\<exists>p st. map_of (fileStates c) p = Some st \<and> cid \<in> set (sChunkIds st)"
      by (auto split: option.splits)
  qed
  from a b show "?A \<and> ?B" ..
next
  assume r: "?A \<and> ?B"
  show ?L
    unfolding cacheInv_def
  proof (intro conjI ballI)
    fix p assume "p \<in> set (map fst (fileStates c))"
    show "case map_of (fileStates c) p of None \<Rightarrow> True
          | Some st \<Rightarrow> \<forall>cid\<in>set (sChunkIds st). cid \<in> set (map fst (chunks c)) \<and> isChunkIdOf p cid"
      using r by (auto split: option.splits)
  next
    fix cid assume "cid \<in> set (map fst (chunks c))"
    then have "cid \<in> fst ` set (chunks c)" by simp
    with r obtain p st where ps: "map_of (fileStates c) p = Some st" "cid \<in> set (sChunkIds st)"
      by blast
    then have "p \<in> set (map fst (fileStates c))" by (auto dest: map_of_SomeD intro: rev_image_eqI)
    with ps show "\<exists>p\<in>set (map fst (fileStates c)).
            case map_of (fileStates c) p of None \<Rightarrow> False | Some st \<Rightarrow> cid \<in> set (sChunkIds st)"
      by (intro bexI[of _ p]) auto
  qed
qed

lemma cacheInv_cong:
  "chunks c' = chunks c \<Longrightarrow> fileStates c' = fileStates c \<Longrightarrow> cacheInv c' = cacheInv c"
  by (simp add: cacheInv_alt)


lemma cacheInv_delete_file:
  assumes "cacheInv c"
  shows "cacheInv (c\<lparr>chunks := (case map_of (fileStates c) p of
                                  Some state \<Rightarrow> removeChunks (sChunkIds state) (chunks c)
                                | None \<Rightarrow> chunks c),
                     fileStates := AList.delete p (fileStates c)\<rparr>)"
proof (cases "map_of (fileStates c) p")
  case None
  have "map_of (AList.delete p (fileStates c)) = map_of (fileStates c)"
    using None by (auto simp: delete_conv' fun_eq_iff)
  then have "cacheInv (c\<lparr>chunks := chunks c, fileStates := AList.delete p (fileStates c)\<rparr>)"
    using assms unfolding cacheInv_alt by simp blast
  then show ?thesis using None by simp
next
  case (Some state)
  have inv: "\<And>q st cid. map_of (fileStates c) q = Some st \<Longrightarrow> cid \<in> set (sChunkIds st) \<Longrightarrow>
                cid \<in> fst ` set (chunks c) \<and> isChunkIdOf q cid"
    and cov: "\<And>cid. cid \<in> fst ` set (chunks c) \<Longrightarrow>
                \<exists>q st. map_of (fileStates c) q = Some st \<and> cid \<in> set (sChunkIds st)"
    using assms unfolding cacheInv_alt by blast+
  let ?c' = "c\<lparr>chunks := removeChunks (sChunkIds state) (chunks c),
                fileStates := AList.delete p (fileStates c)\<rparr>"
  have a: "\<forall>q st cid. map_of (fileStates ?c') q = Some st \<and> cid \<in> set (sChunkIds st) \<longrightarrow>
             cid \<in> fst ` set (chunks ?c') \<and> isChunkIdOf q cid"
  proof (intro allI impI)
    fix q st cid
    assume h: "map_of (fileStates ?c') q = Some st \<and> cid \<in> set (sChunkIds st)"
    then have qp: "q \<noteq> p" and m: "map_of (fileStates c) q = Some st"
      by (auto simp: delete_conv' split: if_splits)
    from inv[OF m] h have i: "cid \<in> fst ` set (chunks c)" "isChunkIdOf q cid" by auto
    have "cid \<notin> set (sChunkIds state)"
    proof
      assume "cid \<in> set (sChunkIds state)"
      from inv[OF Some this] have "isChunkIdOf p cid" by simp
      with i(2) qp show False using isChunkIdOf_inj by blast
    qed
    with i show "cid \<in> fst ` set (chunks ?c') \<and> isChunkIdOf q cid"
      by (simp add: keys_removeChunks)
  qed
  have b: "\<forall>cid\<in>fst ` set (chunks ?c').
             \<exists>q st. map_of (fileStates ?c') q = Some st \<and> cid \<in> set (sChunkIds st)"
  proof
    fix cid assume "cid \<in> fst ` set (chunks ?c')"
    then have k: "cid \<in> fst ` set (chunks c)" and n: "cid \<notin> set (sChunkIds state)"
      by (auto simp: keys_removeChunks)
    from cov[OF k] obtain q st where q: "map_of (fileStates c) q = Some st" "cid \<in> set (sChunkIds st)"
      by blast
    with n Some have "q \<noteq> p" by auto
    with q show "\<exists>q st. map_of (fileStates ?c') q = Some st \<and> cid \<in> set (sChunkIds st)"
      by (intro exI[of _ q] exI[of _ st]) (simp add: delete_conv')
  qed
  from a b have "cacheInv ?c'" unfolding cacheInv_alt by blast
  then show ?thesis using Some by simp
qed

lemma cacheInv_refresh:
  assumes "cacheInv c" "map_of (fileStates c) p = Some previous"
  shows "cacheInv (c\<lparr>fileStates := AList.update p (previous\<lparr>sModifiedAt := m, sSize := n\<rparr>)
                                       (fileStates c),
                     status := s\<rparr>)"
proof -
  have inv: "\<And>q st cid. map_of (fileStates c) q = Some st \<Longrightarrow> cid \<in> set (sChunkIds st) \<Longrightarrow>
                cid \<in> fst ` set (chunks c) \<and> isChunkIdOf q cid"
    and cov: "\<And>cid. cid \<in> fst ` set (chunks c) \<Longrightarrow>
                \<exists>q st. map_of (fileStates c) q = Some st \<and> cid \<in> set (sChunkIds st)"
    using assms(1) unfolding cacheInv_alt by blast+
  let ?prev = "previous\<lparr>sModifiedAt := m, sSize := n\<rparr>"
  let ?c' = "c\<lparr>fileStates := AList.update p ?prev (fileStates c), status := s\<rparr>"
  have F: "\<And>q. map_of (fileStates ?c') q = (if q = p then Some ?prev else map_of (fileStates c) q)"
    by (simp add: update_conv')
  have a: "\<forall>q st cid. map_of (fileStates ?c') q = Some st \<and> cid \<in> set (sChunkIds st) \<longrightarrow>
             cid \<in> fst ` set (chunks ?c') \<and> isChunkIdOf q cid"
  proof (intro allI impI)
    fix q st cid
    assume h: "map_of (fileStates ?c') q = Some st \<and> cid \<in> set (sChunkIds st)"
    show "cid \<in> fst ` set (chunks ?c') \<and> isChunkIdOf q cid"
    proof (cases "q = p")
      case True
      with h F have "st = ?prev" by simp
      with h have "cid \<in> set (sChunkIds previous)" by simp
      from inv[OF assms(2) this] True show ?thesis by simp
    next
      case False
      with h F have "map_of (fileStates c) q = Some st" by simp
      from inv[OF this] h show ?thesis by simp
    qed
  qed
  have b: "\<forall>cid\<in>fst ` set (chunks ?c').
             \<exists>q st. map_of (fileStates ?c') q = Some st \<and> cid \<in> set (sChunkIds st)"
  proof
    fix cid assume "cid \<in> fst ` set (chunks ?c')"
    then have "cid \<in> fst ` set (chunks c)" by simp
    from cov[OF this] obtain q st where q: "map_of (fileStates c) q = Some st" "cid \<in> set (sChunkIds st)"
      by blast
    show "\<exists>q st. map_of (fileStates ?c') q = Some st \<and> cid \<in> set (sChunkIds st)"
    proof (cases "q = p")
      case True
      with q assms(2) have "cid \<in> set (sChunkIds ?prev)" by simp
      then show ?thesis using F by (intro exI[of _ p] exI[of _ ?prev]) simp
    next
      case False
      with q show ?thesis using F by (intro exI[of _ q] exI[of _ st]) simp
    qed
  qed
  from a b show ?thesis unfolding cacheInv_alt by blast
qed


lemma foldl_insertChunk:
  "fst (foldl (insertChunk file texts crs vecs) acc is) =
     fst acc @ map (chunkIdFor (relativePath file)) (filter (\<lambda>i. i < length vecs) is)
   \<and> fst ` set (snd (foldl (insertChunk file texts crs vecs) acc is)) =
     fst ` set (snd acc) \<union> chunkIdFor (relativePath file) ` {i \<in> set is. i < length vecs}"
proof (induction "is" arbitrary: acc)
  case Nil
  then show ?case by simp
next
  case (Cons i "is")
  show ?case
    using Cons.IH[of "insertChunk file texts crs vecs acc i"]
    by (auto simp: insertChunk_def Let_def keys_update)
qed

lemma upsertFile_fields:
  "indexRevision (upsertFile file h crs vecs c) = indexRevision c"
  "folderPath (upsertFile file h crs vecs c) = folderPath c"
  "storagePath (upsertFile file h crs vecs c) = storagePath c"
  "persistedLoaded (upsertFile file h crs vecs c) = persistedLoaded c"
  by (simp_all add: upsertFile_def Let_def)

lemma upsertFile_fileStates:
  "map_of (fileStates (upsertFile file h crs vecs c)) q =
     (if q = relativePath file
      then Some \<lparr>sModifiedAt = fModifiedAt file, sSize = fSize file, sContentHash = h,
                 sChunkIds = map (chunkIdFor (relativePath file))
                               (filter (\<lambda>i. i < length vecs) [0..<length crs])\<rparr>
      else map_of (fileStates c) q)"
  by (simp add: upsertFile_def Let_def update_conv' foldl_insertChunk)

lemma upsertFile_keys:
  "fst ` set (chunks (upsertFile file h crs vecs c)) =
     (fst ` set (chunks c)
        - (case map_of (fileStates c) (relativePath file) of
             Some previousState \<Rightarrow> set (sChunkIds previousState) | None \<Rightarrow> {}))
     \<union> chunkIdFor (relativePath file) ` {i. i < length crs \<and> i < length vecs}"
  by (auto simp: upsertFile_def Let_def foldl_insertChunk keys_removeChunks split: option.splits)

lemma cacheInv_upsertFile:
  assumes "cacheInv c"
  shows "cacheInv (upsertFile file h crs vecs c)"
proof -
  have inv: "\<And>q st cid. map_of (fileStates c) q = Some st \<Longrightarrow> cid \<in> set (sChunkIds st) \<Longrightarrow>
                cid \<in> fst ` set (chunks c) \<and> isChunkIdOf q cid"
    and cov: "\<And>cid. cid \<in> fst ` set (chunks c) \<Longrightarrow>
                \<exists>q st. map_of (fileStates c) q = Some st \<and> cid \<in> set (sChunkIds st)"
    using assms unfolding cacheInv_alt by blast+
  let ?p = "relativePath file"
  let ?c' = "upsertFile file h crs vecs c"
  let ?old = "case map_of (fileStates c) ?p of Some previousState \<Rightarrow> set (sChunkIds previousState) | None \<Rightarrow> {}"
  let ?new = "chunkIdFor ?p ` {i. i < length crs \<and> i < length vecs}"
  have K: "fst ` set (chunks ?c') = (fst ` set (chunks c) - ?old) \<union> ?new" by (rule upsertFile_keys)
  have old_shape: "\<And>cid. cid \<in> ?old \<Longrightarrow> isChunkIdOf ?p cid"
    using inv by (auto split: option.splits)
  have a: "\<forall>q st cid. map_of (fileStates ?c') q = Some st \<and> cid \<in> set (sChunkIds st) \<longrightarrow>
             cid \<in> fst ` set (chunks ?c') \<and> isChunkIdOf q cid"
  proof (intro allI impI)
    fix q st cid
    assume h: "map_of (fileStates ?c') q = Some st \<and> cid \<in> set (sChunkIds st)"
    show "cid \<in> fst ` set (chunks ?c') \<and> isChunkIdOf q cid"
    proof (cases "q = ?p")
      case True
      with h have "cid \<in> ?new" by (auto simp: upsertFile_fileStates)
      then show ?thesis unfolding K using True isChunkIdOf_chunkIdFor by auto
    next
      case False
      with h have m: "map_of (fileStates c) q = Some st" by (simp add: upsertFile_fileStates)
      from inv[OF m] h have i: "cid \<in> fst ` set (chunks c)" "isChunkIdOf q cid" by auto
      have "cid \<notin> ?old" using old_shape i(2) False isChunkIdOf_inj by blast
      with i show ?thesis unfolding K by simp
    qed
  qed
  have b: "\<forall>cid\<in>fst ` set (chunks ?c').
             \<exists>q st. map_of (fileStates ?c') q = Some st \<and> cid \<in> set (sChunkIds st)"
  proof
    fix cid assume "cid \<in> fst ` set (chunks ?c')"
    then consider (new) "cid \<in> ?new" | (kept) "cid \<in> fst ` set (chunks c)" "cid \<notin> ?old"
      unfolding K by blast
    then show "\<exists>q st. map_of (fileStates ?c') q = Some st \<and> cid \<in> set (sChunkIds st)"
    proof cases
      case new
      then show ?thesis
        by (intro exI[of _ ?p]) (auto simp: upsertFile_fileStates)
    next
      case kept
      from cov[OF kept(1)] obtain q st where q: "map_of (fileStates c) q = Some st" "cid \<in> set (sChunkIds st)"
        by blast
      with kept(2) have "q \<noteq> ?p" by auto
      with q show ?thesis by (intro exI[of _ q] exI[of _ st]) (simp add: upsertFile_fileStates)
    qed
  qed
  from a b show ?thesis unfolding cacheInv_alt by blast
qed

subsection \<open>The steps of the transaction\<close>

lemma removeDeleted_frame:
  "indexRevision (fst (removeDeleted ks cur (c, b))) = indexRevision c
   \<and> folderPath (fst (removeDeleted ks cur (c, b))) = folderPath c
   \<and> status (fst (removeDeleted ks cur (c, b))) = status c
   \<and> (cacheInv c \<longrightarrow> cacheInv (fst (removeDeleted ks cur (c, b))))
   \<and> dom (map_of (fileStates (fst (removeDeleted ks cur (c, b))))) =
       dom (map_of (fileStates c)) - {k \<in> set ks. k \<notin> set cur}
   \<and> snd (removeDeleted ks cur (c, b)) = (b \<or> (\<exists>k\<in>set ks. k \<notin> set cur))
   \<and> ((\<forall>k\<in>set ks. k \<in> set cur) \<longrightarrow> fst (removeDeleted ks cur (c, b)) = c)"
proof (induction ks arbitrary: c b)
  case Nil
  then show ?case by simp
next
  case (Cons k ks)
  show ?case
  proof (cases "k \<in> set cur")
    case True
    then show ?thesis using Cons.IH[of c b] by auto
  next
    case False
    let ?c1 = "c\<lparr>chunks := (case map_of (fileStates c) k of
                                Some state \<Rightarrow> removeChunks (sChunkIds state) (chunks c)
                              | None \<Rightarrow> chunks c),
                  fileStates := AList.delete k (fileStates c)\<rparr>"
    have r: "removeDeleted (k # ks) cur (c, b) = removeDeleted ks cur (?c1, True)"
      using False by simp
    have i: "cacheInv c \<longrightarrow> cacheInv ?c1" using cacheInv_delete_file by blast
    have d: "dom (map_of (fileStates ?c1)) = dom (map_of (fileStates c)) - {k}"
      by (auto simp: delete_conv' split: if_splits)
    show ?thesis
      unfolding r using Cons.IH[of ?c1 True] i d False by auto
  qed
qed

lemma map_update_same_projection:
  "map_of al k = Some v \<Longrightarrow> f (k, v') = f (k, v) \<Longrightarrow>
     map f (AList.update k v' al) = map f al"
  by (induction al) (auto split: if_splits)

lemma hashCheck_frame:
  "hashCheck env files (c, todo, t) = (r, c', todo', t') \<Longrightarrow>
     indexRevision c' = indexRevision c
     \<and> folderPath c' = folderPath c
     \<and> chunks c' = chunks c
     \<and> (cacheInv c \<longrightarrow> cacheInv c')
     \<and> dom (map_of (fileStates c')) = dom (map_of (fileStates c))
     \<and> fst ` set todo' \<subseteq> fst ` set todo \<union> set files
     \<and> map (\<lambda>e. (fst e, sContentHash (snd e), sChunkIds (snd e))) (fileStates c') =
       map (\<lambda>e. (fst e, sContentHash (snd e), sChunkIds (snd e))) (fileStates c)"
proof (induction files arbitrary: c todo t)
  case Nil
  then show ?case by simp
next
  case (Cons f files)
  show ?case
  proof (cases "readFile env (fullPath f)")
    case (Inl err)
    with Cons.prems show ?thesis by auto
  next
    case (Inr content)
    let ?h = "computeContentHash env content"
    show ?thesis
    proof (cases "map_of (fileStates c) (relativePath f)")
      case None
      with Cons.prems Inr have
        "hashCheck env files (c, todo @ [(f, content, ?h)], t + 1) = (r, c', todo', t')"
        by simp
      from Cons.IH[OF this] show ?thesis by auto
    next
      case (Some previous)
      show ?thesis
      proof (cases "sContentHash previous \<noteq> [] \<and> sContentHash previous = ?h")
        case False
        with Cons.prems Inr Some have
          "hashCheck env files (c, todo @ [(f, content, ?h)], t + 1) = (r, c', todo', t')"
          by (simp add: Let_def)
        from Cons.IH[OF this] show ?thesis by auto
      next
        case True
        let ?c1 = "c\<lparr>fileStates :=
                        AList.update (relativePath f)
                          (previous\<lparr>sModifiedAt := fModifiedAt f, sSize := fSize f\<rparr>)
                          (fileStates c),
                      status := (status c)\<lparr>skippedUnchanged := skippedUnchanged (status c) + 1\<rparr>\<rparr>"
        from Cons.prems Inr Some True have
          h: "hashCheck env files (?c1, todo, t + 1) = (r, c', todo', t')"
          by (auto simp: Let_def)
        have i: "cacheInv c \<longrightarrow> cacheInv ?c1" using cacheInv_refresh[OF _ Some] by blast
        have d: "dom (map_of (fileStates ?c1)) = dom (map_of (fileStates c))"
          using Some by (auto simp: update_conv')
        have p: "map (\<lambda>e. (fst e, sContentHash (snd e), sChunkIds (snd e))) (fileStates ?c1) =
                 map (\<lambda>e. (fst e, sContentHash (snd e), sChunkIds (snd e))) (fileStates c)"
          by (simp add: map_update_same_projection[OF Some])
        from Cons.IH[OF h] i d p show ?thesis by auto
      qed
    qed
  qed
qed


lemma takeNext_item:
  "takeNext env items n t = Inr (ws, n') \<Longrightarrow> workerItem ws = Some it \<Longrightarrow> it \<in> set items"
  by (auto simp: takeNext_def workerItem_def split: if_splits)

lemma embedFrom_frame:
  assumes "embedFrom env item crs i vecs c t = Inr (ws, c')"
  shows "indexRevision c' = indexRevision c \<and> folderPath c' = folderPath c
       \<and> (cacheInv c \<longrightarrow> cacheInv c')
       \<and> dom (map_of (fileStates c')) \<subseteq> insert (relativePath (fst item)) (dom (map_of (fileStates c)))
       \<and> (\<forall>it. workerItem ws = Some it \<longrightarrow> it = item)
       \<and> persistedLoaded c' = persistedLoaded c"
proof (cases "i < length crs")
  case True
  with assms have "ws = WEmbed item crs i vecs \<and> c' = c"
    by (auto simp: embedFrom_def split: if_splits)
  then show ?thesis by (auto simp: workerItem_def)
next
  case False
  with assms have e: "ws = WNext" "c' = upsertFile (fst item) (snd (snd item)) crs vecs c"
    by (auto simp: embedFrom_def)
  have "dom (map_of (fileStates c')) \<subseteq> insert (relativePath (fst item)) (dom (map_of (fileStates c)))"
    unfolding e by (auto simp: upsertFile_fileStates split: if_splits)
  then show ?thesis unfolding e using cacheInv_upsertFile
    by (simp add: upsertFile_fields workerItem_def)
qed

lemma resume_frame:
  assumes rs: "resume env b items ws c n t = Inr (ws', c', n')"
      and wi: "\<forall>it. workerItem ws = Some it \<longrightarrow> it \<in> set items"
  shows "indexRevision c' = indexRevision c \<and> folderPath c' = folderPath c
       \<and> (cacheInv c \<longrightarrow> cacheInv c')
       \<and> dom (map_of (fileStates c')) \<subseteq> relativePath ` fst ` set items \<union> dom (map_of (fileStates c))
       \<and> (\<forall>it. workerItem ws' = Some it \<longrightarrow> it \<in> set items)
       \<and> persistedLoaded c' = persistedLoaded c"
proof (cases ws)
  case (WChunk item)
  with rs have "embedFrom env item (chunkFile env (fst (snd item)) (relativePath (fst item)))
                  0 [] c t = Inr (ws', c')"
    by (auto simp: resume_def split: sum.splits)
  note ef = embedFrom_frame[OF this]
  have it: "item \<in> set items" using wi WChunk by (simp add: workerItem_def)
  have d: "dom (map_of (fileStates c')) \<subseteq> relativePath ` fst ` set items \<union> dom (map_of (fileStates c))"
  proof
    fix k assume "k \<in> dom (map_of (fileStates c'))"
    with ef[THEN conjunct2, THEN conjunct2, THEN conjunct2, THEN conjunct1]
    have "k = relativePath (fst item) \<or> k \<in> dom (map_of (fileStates c))" by blast
    with it show "k \<in> relativePath ` fst ` set items \<union> dom (map_of (fileStates c))" by auto
  qed
  have w: "\<forall>it. workerItem ws' = Some it \<longrightarrow> it \<in> set items"
    using ef[THEN conjunct2, THEN conjunct2, THEN conjunct2, THEN conjunct2, THEN conjunct1] it
    by blast
  show ?thesis
    using ef[THEN conjunct1] ef[THEN conjunct2, THEN conjunct1]
          ef[THEN conjunct2, THEN conjunct2, THEN conjunct1]
          ef[THEN conjunct2, THEN conjunct2, THEN conjunct2, THEN conjunct2, THEN conjunct2] d w
    by (intro conjI) simp_all
next
  case (WEmbed item crs i vecs)
  with rs obtain embedded where
    "embedFrom env item crs (i + b) (vecs @ embedded) c t = Inr (ws', c')"
    by (auto simp: resume_def split: sum.splits)
  note ef = embedFrom_frame[OF this]
  have it: "item \<in> set items" using wi WEmbed by (simp add: workerItem_def)
  have d: "dom (map_of (fileStates c')) \<subseteq> relativePath ` fst ` set items \<union> dom (map_of (fileStates c))"
  proof
    fix k assume "k \<in> dom (map_of (fileStates c'))"
    with ef[THEN conjunct2, THEN conjunct2, THEN conjunct2, THEN conjunct1]
    have "k = relativePath (fst item) \<or> k \<in> dom (map_of (fileStates c))" by blast
    with it show "k \<in> relativePath ` fst ` set items \<union> dom (map_of (fileStates c))" by auto
  qed
  have w: "\<forall>it. workerItem ws' = Some it \<longrightarrow> it \<in> set items"
    using ef[THEN conjunct2, THEN conjunct2, THEN conjunct2, THEN conjunct2, THEN conjunct1] it
    by blast
  show ?thesis
    using ef[THEN conjunct1] ef[THEN conjunct2, THEN conjunct1]
          ef[THEN conjunct2, THEN conjunct2, THEN conjunct1]
          ef[THEN conjunct2, THEN conjunct2, THEN conjunct2, THEN conjunct2, THEN conjunct2] d w
    by (intro conjI) simp_all
next
  case WNext
  with rs have tn: "takeNext env items n t = Inr (ws', n')" and e: "c' = c"
    by (auto simp: resume_def split: sum.splits)
  have w: "\<forall>it. workerItem ws' = Some it \<longrightarrow> it \<in> set items"
    using takeNext_item[OF tn] by blast
  show ?thesis unfolding e using w by simp
next
  case WDone
  with rs have "ws' = WDone \<and> c' = c" by (simp add: resume_def)
  then show ?thesis by (simp add: workerItem_def)
qed

lemma activeWorkers_nth:
  assumes "activeWorkers workers \<noteq> []"
  shows "activeWorkers workers ! (j mod length (activeWorkers workers)) < length workers"
proof -
  have "activeWorkers workers ! (j mod length (activeWorkers workers)) \<in> set (activeWorkers workers)"
    using assms by (intro nth_mem) simp
  then show ?thesis by (simp add: activeWorkers_def)
qed

lemma runPool_frame:
  assumes "runPool env b items workers n c t = Some y"
  shows "(\<forall>ws\<in>set workers. \<forall>it. workerItem ws = Some it \<longrightarrow> it \<in> set items) \<longrightarrow>
         indexRevision (fst (snd y)) = indexRevision c \<and> folderPath (fst (snd y)) = folderPath c
       \<and> (cacheInv c \<longrightarrow> cacheInv (fst (snd y)))
       \<and> dom (map_of (fileStates (fst (snd y))))
           \<subseteq> relativePath ` fst ` set items \<union> dom (map_of (fileStates c))
       \<and> persistedLoaded (fst (snd y)) = persistedLoaded c"
proof (rule runPool.raw_induct[where P = "\<lambda>env b items workers n c t y.
         (\<forall>ws\<in>set workers. \<forall>it. workerItem ws = Some it \<longrightarrow> it \<in> set items) \<longrightarrow>
         indexRevision (fst (snd y)) = indexRevision c \<and> folderPath (fst (snd y)) = folderPath c
       \<and> (cacheInv c \<longrightarrow> cacheInv (fst (snd y)))
       \<and> dom (map_of (fileStates (fst (snd y))))
           \<subseteq> relativePath ` fst ` set items \<union> dom (map_of (fileStates c))
       \<and> persistedLoaded (fst (snd y)) = persistedLoaded c", OF _ assms], goal_cases)
  case (1 pool env b items workers n c t y)
  show ?case
  proof
    assume wi: "\<forall>ws\<in>set workers. \<forall>it. workerItem ws = Some it \<longrightarrow> it \<in> set items"
    let ?Q = "\<lambda>c y. indexRevision (fst (snd y)) = indexRevision c \<and> folderPath (fst (snd y)) = folderPath c
       \<and> (cacheInv c \<longrightarrow> cacheInv (fst (snd y)))
       \<and> dom (map_of (fileStates (fst (snd y))))
           \<subseteq> relativePath ` fst ` set items \<union> dom (map_of (fileStates c))
       \<and> persistedLoaded (fst (snd y)) = persistedLoaded c"
    show "?Q c y"
    proof (cases "activeWorkers workers = []")
      case True
      with 1(2) have "y = (None, c, t)" by simp
      then show ?thesis by simp
    next
      case False
      let ?k = "activeWorkers workers ! (schedule env t mod length (activeWorkers workers))"
      have kl: "?k < length workers" by (rule activeWorkers_nth[OF False])
      from 1(2) False have eq:
        "(case resume env b items (workers ! ?k) c n (t + 1) of
           Inl err \<Rightarrow> Some (Some err, c, t + 1)
         | Inr (ws', cache', nextIndex') \<Rightarrow> pool env b items (workers[?k := ws']) nextIndex' cache' (t + 1))
         = Some y"
        by (simp add: Let_def)
      show ?thesis
      proof (cases "resume env b items (workers ! ?k) c n (t + 1)")
        case (Inl err)
        with eq have "y = (Some err, c, t + 1)" by simp
        then show ?thesis by simp
      next
        case (Inr res)
        obtain ws' c1 n1 where res: "res = (ws', c1, n1)" by (cases res) auto
        from eq Inr res have rec: "pool env b items (workers[?k := ws']) n1 c1 (t + 1) = Some y"
          by simp
        have wk: "\<forall>it. workerItem (workers ! ?k) = Some it \<longrightarrow> it \<in> set items"
          using wi nth_mem[OF kl] by blast
        note rf = resume_frame[OF Inr[unfolded res] wk]
        note r1 = rf[THEN conjunct1]
        note r2 = rf[THEN conjunct2, THEN conjunct1]
        note r3 = rf[THEN conjunct2, THEN conjunct2, THEN conjunct1]
        note r4 = rf[THEN conjunct2, THEN conjunct2, THEN conjunct2, THEN conjunct1]
        note r5 = rf[THEN conjunct2, THEN conjunct2, THEN conjunct2, THEN conjunct2, THEN conjunct1]
        note r6 = rf[THEN conjunct2, THEN conjunct2, THEN conjunct2, THEN conjunct2, THEN conjunct2]
        have wi': "\<forall>ws\<in>set (workers[?k := ws']). \<forall>it. workerItem ws = Some it \<longrightarrow> it \<in> set items"
        proof
          fix ws assume "ws \<in> set (workers[?k := ws'])"
          then have "ws = ws' \<or> ws \<in> set workers"
            using set_update_subset_insert[of workers ?k ws'] by blast
          with r5 wi show "\<forall>it. workerItem ws = Some it \<longrightarrow> it \<in> set items" by blast
        qed
        from 1(1)[OF rec] wi' have ih: "?Q c1 y" by blast
        note i1 = ih[THEN conjunct1]
        note i2 = ih[THEN conjunct2, THEN conjunct1]
        note i3 = ih[THEN conjunct2, THEN conjunct2, THEN conjunct1]
        note i4 = ih[THEN conjunct2, THEN conjunct2, THEN conjunct2, THEN conjunct1]
        note i6 = ih[THEN conjunct2, THEN conjunct2, THEN conjunct2, THEN conjunct2]
        have d: "dom (map_of (fileStates (fst (snd y))))
                   \<subseteq> relativePath ` fst ` set items \<union> dom (map_of (fileStates c))"
        proof
          fix p assume "p \<in> dom (map_of (fileStates (fst (snd y))))"
          with i4 have "p \<in> relativePath ` fst ` set items \<or> p \<in> dom (map_of (fileStates c1))"
            by blast
          with r4 show "p \<in> relativePath ` fst ` set items \<union> dom (map_of (fileStates c))"
            by blast
        qed
        have g3: "cacheInv c \<longrightarrow> cacheInv (fst (snd y))" using r3 i3 by blast
        show ?thesis using r1 r2 r6 i1 i2 i6 d g3 by (intro conjI) simp_all
      qed
    qed
  qed
qed

lemma initial_workers_items:
  assumes "m \<le> length items"
  shows "\<forall>ws\<in>set (map (\<lambda>k. WChunk (items ! k)) [0..<m]).
           \<forall>it. workerItem ws = Some it \<longrightarrow> it \<in> set items"
proof (intro ballI allI impI)
  fix ws it
  assume "ws \<in> set (map (\<lambda>k. WChunk (items ! k)) [0..<m])" and w: "workerItem ws = Some it"
  then obtain k where k: "k < m" "ws = WChunk (items ! k)" by auto
  with w have "it = items ! k" by (simp add: workerItem_def)
  with k assms show "it \<in> set items" by simp
qed

lemma runWithConcurrency_frame:
  assumes "runWithConcurrency env n b items (c, t) = Some (r, c', t')"
  shows "indexRevision c' = indexRevision c \<and> folderPath c' = folderPath c
     \<and> (cacheInv c \<longrightarrow> cacheInv c')
     \<and> dom (map_of (fileStates c')) \<subseteq> relativePath ` fst ` set items \<union> dom (map_of (fileStates c))
     \<and> (items = [] \<longrightarrow> r = None \<and> c' = c \<and> t' = t)"
proof (cases "items = []")
  case True
  with assms have "r = None \<and> c' = c \<and> t' = t" by (simp add: runWithConcurrency_def)
  then show ?thesis by simp
next
  case False
  show ?thesis
  proof (cases "aborted env t")
    case True
    with assms False have "c' = c" by (simp add: runWithConcurrency_def Let_def)
    then show ?thesis using False by simp
  next
    case na: False
    define m where "m = min (max 1 n) (length items)"
    from assms False na have rp:
      "runPool env b items (map (\<lambda>k. WChunk (items ! k)) [0..<m]) m c t = Some (r, c', t')"
      by (simp add: runWithConcurrency_def Let_def m_def)
    have wi: "\<forall>ws\<in>set (map (\<lambda>k. WChunk (items ! k)) [0..<m]). \<forall>it. workerItem ws = Some it \<longrightarrow> it \<in> set items"
      by (rule initial_workers_items) (simp add: m_def)
    from runPool_frame[OF rp] wi
    have "indexRevision c' = indexRevision c \<and> folderPath c' = folderPath c
       \<and> (cacheInv c \<longrightarrow> cacheInv c')
       \<and> dom (map_of (fileStates c')) \<subseteq> relativePath ` fst ` set items \<union> dom (map_of (fileStates c))
       \<and> persistedLoaded c' = persistedLoaded c"
      by simp
    then show ?thesis using False by simp
  qed
qed

lemma runWithConcurrency_persistedLoaded:
  assumes "runWithConcurrency env n b items (c, t) = Some (r, c', t')"
  shows "persistedLoaded c' = persistedLoaded c"
proof (cases "items = [] \<or> aborted env t")
  case True
  have "c' = c"
  proof (cases "items = []")
    case True
    with assms show ?thesis by (simp add: runWithConcurrency_def)
  next
    case False
    with True assms show ?thesis by (simp add: runWithConcurrency_def Let_def)
  qed
  then show ?thesis by simp
next
  case False
  define m where "m = min (max 1 n) (length items)"
  from assms False have rp:
    "runPool env b items (map (\<lambda>k. WChunk (items ! k)) [0..<m]) m c t = Some (r, c', t')"
    by (simp add: runWithConcurrency_def Let_def m_def)
  have wi: "\<forall>ws\<in>set (map (\<lambda>k. WChunk (items ! k)) [0..<m]). \<forall>it. workerItem ws = Some it \<longrightarrow> it \<in> set items"
    by (rule initial_workers_items) (simp add: m_def)
  from runPool_frame[OF rp] wi show ?thesis by simp
qed

lemma finishIndex_fields:
  "finishIndex env ch (c, d, t) = (r, c', d', t') \<Longrightarrow>
     chunks c' = chunks c \<and> fileStates c' = fileStates c \<and> folderPath c' = folderPath c
     \<and> indexRevision c' = (if ch then indexRevision c + 1 else indexRevision c)
     \<and> (r, d') = (if ch then saveToDisk (mkdir env t) (writeFile env t) (dateNow env t) d
                               (folderPath c) (chunks c) (fileStates c)
                  else (None, d))
     \<and> phase (status c') = Ready
     \<and> totalFiles (status c') = totalFiles (status c)
     \<and> skippedUnchanged (status c') = skippedUnchanged (status c)"
  by (cases ch; cases "fst (saveToDisk (mkdir env t) (writeFile env t) (dateNow env t) d
                               (folderPath c) (chunks c) (fileStates c))")
     (auto simp: finishIndex_def Let_def rebuildAnnIndex_def prod_eq_iff)

lemma detectChanges_frame:
  assumes "detectChanges candidates c0 = (c3, removedAny, changedFiles)"
  shows "indexRevision c3 = indexRevision c0 \<and> folderPath c3 = folderPath c0
       \<and> (cacheInv c0 \<longrightarrow> cacheInv c3)
       \<and> dom (map_of (fileStates c3)) \<subseteq> relativePath ` set candidates
       \<and> (\<not> removedAny \<longrightarrow> chunks c3 = chunks c0 \<and> fileStates c3 = fileStates c0)
       \<and> removedAny = (\<exists>k\<in>fst ` set (fileStates c0). k \<notin> relativePath ` set candidates)
       \<and> changedFiles = filter (\<lambda>f. \<not> unchangedMeta c3 f) candidates
       \<and> totalFiles (status c3) = length candidates
       \<and> skippedUnchanged (status c3) = length (filter (unchangedMeta c3) candidates)"
proof -
  define c1 where "c1 = c0\<lparr>status := (status c0)\<lparr>
                     totalFiles := length candidates, filesToEmbed := 0,
                     skippedUnchanged := 0, phase := Embedding,
                     message := Some (js ''Preparing embeddings...'')\<rparr>\<rparr>"
  define rm where "rm = removeDeleted (map fst (fileStates c1)) (map relativePath candidates) (c1, False)"
  define c2 where "c2 = fst rm"
  note fr = removeDeleted_frame[of "map fst (fileStates c1)" "map relativePath candidates" c1 False,
      folded rm_def, folded c2_def]
  note fr1 = fr[THEN conjunct1]
  note fr2 = fr[THEN conjunct2, THEN conjunct1]
  note fr3 = fr[THEN conjunct2, THEN conjunct2, THEN conjunct1]
  note fr4 = fr[THEN conjunct2, THEN conjunct2, THEN conjunct2, THEN conjunct1]
  note fr5 = fr[THEN conjunct2, THEN conjunct2, THEN conjunct2, THEN conjunct2, THEN conjunct1]
  note fr6 = fr[THEN conjunct2, THEN conjunct2, THEN conjunct2, THEN conjunct2, THEN conjunct2,
                THEN conjunct1]
  note fr7 = fr[THEN conjunct2, THEN conjunct2, THEN conjunct2, THEN conjunct2, THEN conjunct2,
                THEN conjunct2]
  have dc: "detectChanges candidates c0 =
      (c2\<lparr>status := (status c2)\<lparr>skippedUnchanged := length (filter (unchangedMeta c2) candidates)\<rparr>\<rparr>,
       snd rm, filter (\<lambda>f. \<not> unchangedMeta c2 f) candidates)"
    unfolding detectChanges_def Let_def c2_def rm_def c1_def ..
  have c3: "c3 = c2\<lparr>status := (status c2)\<lparr>skippedUnchanged :=
                     length (filter (unchangedMeta c2) candidates)\<rparr>\<rparr>"
    and ra: "removedAny = snd rm"
    and cf: "changedFiles = filter (\<lambda>f. \<not> unchangedMeta c2 f) candidates"
    using assms unfolding dc by simp_all
  have um: "unchangedMeta c3 = unchangedMeta c2"
    unfolding c3 by (rule ext) (simp add: unchangedMeta_def)
  have "cacheInv c1 = cacheInv c0" unfolding c1_def by (rule cacheInv_cong) simp_all
  moreover have "cacheInv c3 = cacheInv c2" unfolding c3 by (rule cacheInv_cong) simp_all
  ultimately have p2: "cacheInv c0 \<longrightarrow> cacheInv c3" using fr4 by simp
  have f1: "fileStates c1 = fileStates c0" "chunks c1 = chunks c0"
       "indexRevision c1 = indexRevision c0" "folderPath c1 = folderPath c0"
       "totalFiles (status c1) = length candidates"
    unfolding c1_def by simp_all
  have p1: "indexRevision c3 = indexRevision c0" "folderPath c3 = folderPath c0"
    unfolding c3 using fr1 fr2 f1 by simp_all
  have p3: "dom (map_of (fileStates c3)) \<subseteq> relativePath ` set candidates"
  proof
    fix k assume "k \<in> dom (map_of (fileStates c3))"
    then have "k \<in> dom (map_of (fileStates c2))" unfolding c3 by simp
    then have k: "k \<in> dom (map_of (fileStates c1))"
      "k \<notin> {k \<in> set (map fst (fileStates c1)). k \<notin> set (map relativePath candidates)}"
      unfolding fr5 by blast+
    from k(1) have "k \<in> set (map fst (fileStates c1))" by (simp add: dom_map_of_conv_image_fst)
    with k(2) show "k \<in> relativePath ` set candidates" by simp
  qed
  have p4: "\<not> removedAny \<longrightarrow> chunks c3 = chunks c0 \<and> fileStates c3 = fileStates c0"
  proof
    assume "\<not> removedAny"
    then have "\<forall>k\<in>set (map fst (fileStates c1)). k \<in> set (map relativePath candidates)"
      unfolding ra fr6 by simp
    with fr7 have "c2 = c1" by blast
    then show "chunks c3 = chunks c0 \<and> fileStates c3 = fileStates c0"
      unfolding c3 using f1 by simp
  qed
  have p5: "removedAny = (\<exists>k\<in>fst ` set (fileStates c0). k \<notin> relativePath ` set candidates)"
    unfolding ra fr6 using f1(1) by simp
  have p6: "changedFiles = filter (\<lambda>f. \<not> unchangedMeta c3 f) candidates"
    unfolding cf um ..
  have p7: "totalFiles (status c3) = length candidates"
    unfolding c3 using fr3 f1(5) by simp
  have p8: "skippedUnchanged (status c3) = length (filter (unchangedMeta c3) candidates)"
    unfolding um unfolding c3 by simp
  show ?thesis
    by (intro conjI p1 p2 p3 p4 p5 p6 p7 p8)
qed

subsection \<open>The whole transaction\<close>

lemma ensurePersistedLoaded_fields:
  "indexRevision (fst (ensurePersistedLoaded env d (c, t))) = indexRevision c"
  "folderPath (fst (ensurePersistedLoaded env d (c, t))) = folderPath c"
  "persistedLoaded c \<Longrightarrow> ensurePersistedLoaded env d (c, t) = (c, t)"
  by (simp_all add: ensurePersistedLoaded_def Let_def rebuildAnnIndex_def)

lemma ensurePersistedLoaded_configured:
  "chunks (fst (ensurePersistedLoaded env d (c\<lparr>configEnabled := a, storagePath := sp, status := s\<rparr>, t)))
     = chunks (fst (ensurePersistedLoaded env d (c, t)))"
  "fileStates (fst (ensurePersistedLoaded env d (c\<lparr>configEnabled := a, storagePath := sp, status := s\<rparr>, t)))
     = fileStates (fst (ensurePersistedLoaded env d (c, t)))"
  by (simp_all add: ensurePersistedLoaded_def Let_def rebuildAnnIndex_def)

text \<open>
  What a run of the \<open>try\<close> block that ends leaves behind, relative to the cache
  \<open>c0\<close> that \<open>ensurePersistedLoaded\<close> returned at its start.
\<close>

lemma indexBody_result:
  assumes ib: "indexBody env cl b (c, d, t) = Some (thrown, c', d', t')"
  defines "c0 \<equiv> fst (ensurePersistedLoaded env d (c, t))"
  shows "folderPath c' = folderPath c0
       \<and> (cacheInv c0 \<longrightarrow> cacheInv c')
       \<and> (thrown \<noteq> None \<longrightarrow>
            (d' = d \<and> indexRevision c' = indexRevision c0)
            \<or> (indexRevision c' = indexRevision c0 + 1
                \<and> (\<exists>mk wr now. saveToDisk mk wr now d (folderPath c0) (chunks c') (fileStates c')
                                   = (thrown, d'))))
       \<and> (thrown = None \<longrightarrow>
            (\<exists>candidates. scanDirectory env (folderPath c0) = Inr candidates
               \<and> dom (map_of (fileStates c')) \<subseteq> relativePath ` set candidates)
            \<and> phase (status c') = Ready
            \<and> ((indexRevision c' = indexRevision c0 \<and> d' = d \<and> chunks c' = chunks c0
                 \<and> map (\<lambda>e. (fst e, sContentHash (snd e), sChunkIds (snd e))) (fileStates c') =
                   map (\<lambda>e. (fst e, sContentHash (snd e), sChunkIds (snd e))) (fileStates c0))
               \<or> (indexRevision c' = indexRevision c0 + 1
                   \<and> (\<exists>mk wr now. saveToDisk mk wr now d (folderPath c0) (chunks c') (fileStates c')
                                      = (None, d')))))"
proof -
  define t0 where "t0 = snd (ensurePersistedLoaded env d (c, t))"
  have unf: "indexBody env cl b (c, d, t) =
     (case scanDirectory env (folderPath c0) of
        Inl err \<Rightarrow> Some (Some err, c0, d, t0 + 1)
      | Inr candidates \<Rightarrow>
          if aborted env (t0 + 1) then Some (Some (abortError env), c0, d, t0 + 1)
          else
            (case detectChanges candidates c0 of
               (cache3, removedAny, changedFiles) \<Rightarrow>
                 (case hashCheck env changedFiles (cache3, [], t0 + 1) of
                    (Some err, cache4, _, t4) \<Rightarrow> Some (Some err, cache4, d, t4)
                  | (None, cache4, filesToProcess, t4) \<Rightarrow>
                      (let cache5 = cache4\<lparr>status := (status cache4)\<lparr>
                                      filesToEmbed := length filesToProcess,
                                      embeddedFiles := 0\<rparr>\<rparr>;
                           changedIndex = (removedAny \<or> length filesToProcess > 0)
                       in case runWithConcurrency env cl b filesToProcess (cache5, t4) of
                            None \<Rightarrow> None
                          | Some (Some err, cache6, t6) \<Rightarrow> Some (Some err, cache6, d, t6)
                          | Some (None, cache6, t6) \<Rightarrow>
                              Some (finishIndex env changedIndex (cache6, d, t6))))))"
    unfolding indexBody_def c0_def t0_def by (simp add: Let_def)
  show ?thesis
  proof (cases "scanDirectory env (folderPath c0)")
    case (Inl err)
    with ib unf have "thrown = Some err" "c' = c0" "d' = d" by simp_all
    then show ?thesis by simp
  next
    case (Inr candidates)
    show ?thesis
    proof (cases "aborted env (t0 + 1)")
      case True
      with ib unf Inr have "thrown = Some (abortError env)" "c' = c0" "d' = d" by simp_all
      then show ?thesis by simp
    next
      case False
      obtain c3 ra cfs where dc: "detectChanges candidates c0 = (c3, ra, cfs)"
        by (cases "detectChanges candidates c0") auto
      note df = detectChanges_frame[OF dc]
      note d1 = df[THEN conjunct1] df[THEN conjunct2, THEN conjunct1] df[THEN conjunct2, THEN conjunct2, THEN conjunct1] df[THEN conjunct2, THEN conjunct2, THEN conjunct2, THEN conjunct1] df[THEN conjunct2, THEN conjunct2, THEN conjunct2, THEN conjunct2, THEN conjunct1]
      note d7 = df[THEN conjunct2, THEN conjunct2, THEN conjunct2, THEN conjunct2, THEN conjunct2, THEN conjunct2, THEN conjunct1]
      obtain r4 c4 todo t4 where hc: "hashCheck env cfs (c3, [], t0 + 1) = (r4, c4, todo, t4)"
        by (cases "hashCheck env cfs (c3, [], t0 + 1)") auto
      note hf = hashCheck_frame[OF hc]
      note h1 = hf[THEN conjunct1] hf[THEN conjunct2, THEN conjunct1] hf[THEN conjunct2, THEN conjunct2, THEN conjunct1] hf[THEN conjunct2, THEN conjunct2, THEN conjunct2, THEN conjunct1] hf[THEN conjunct2, THEN conjunct2, THEN conjunct2, THEN conjunct2, THEN conjunct1] hf[THEN conjunct2, THEN conjunct2, THEN conjunct2, THEN conjunct2, THEN conjunct2, THEN conjunct1] hf[THEN conjunct2, THEN conjunct2, THEN conjunct2, THEN conjunct2, THEN conjunct2, THEN conjunct2]
      show ?thesis
      proof (cases r4)
        case (Some err)
        with ib unf Inr False dc hc have "thrown = Some err" "c' = c4" "d' = d" by simp_all
        then show ?thesis using d1 h1 by simp
      next
        case None
        define c5 where "c5 = c4\<lparr>status := (status c4)\<lparr>filesToEmbed := length todo,
                                                         embeddedFiles := 0\<rparr>\<rparr>"
        have i5: "cacheInv c5 = cacheInv c4" unfolding c5_def by (rule cacheInv_cong) simp_all
        have f5: "indexRevision c5 = indexRevision c4" "folderPath c5 = folderPath c4"
                 "chunks c5 = chunks c4" "fileStates c5 = fileStates c4"
          unfolding c5_def by simp_all
        from ib unf Inr False dc hc None have run:
          "(case runWithConcurrency env cl b todo (c5, t4) of
              None \<Rightarrow> None
            | Some (Some err, cache6, t6) \<Rightarrow> Some (Some err, cache6, d, t6)
            | Some (None, cache6, t6) \<Rightarrow>
                Some (finishIndex env (ra \<or> todo \<noteq> []) (cache6, d, t6)))
           = Some (thrown, c', d', t')"
          by (simp add: Let_def c5_def)
        then obtain r6 c6 t6 where rw: "runWithConcurrency env cl b todo (c5, t4) = Some (r6, c6, t6)"
          by (cases "runWithConcurrency env cl b todo (c5, t4)") auto
        note rf = runWithConcurrency_frame[OF rw]
        note r1 = rf[THEN conjunct1] rf[THEN conjunct2, THEN conjunct1] rf[THEN conjunct2, THEN conjunct2, THEN conjunct1] rf[THEN conjunct2, THEN conjunct2, THEN conjunct2, THEN conjunct1]
        have r5: "todo = [] \<longrightarrow> c6 = c5" using rf[THEN conjunct2, THEN conjunct2, THEN conjunct2, THEN conjunct2] by simp
        have inv6: "cacheInv c0 \<longrightarrow> cacheInv c6" using d1(3) h1(4) i5 r1(3) by blast
        have dom6: "dom (map_of (fileStates c6)) \<subseteq> relativePath ` set candidates"
        proof
          fix k assume "k \<in> dom (map_of (fileStates c6))"
          with r1(4) consider "k \<in> relativePath ` fst ` set todo" | "k \<in> dom (map_of (fileStates c5))"
            by blast
          then show "k \<in> relativePath ` set candidates"
          proof cases
            case 1
            then obtain f where "f \<in> fst ` set todo" "k = relativePath f" by blast
            with h1(6) have "f \<in> set cfs" by auto
            then have "f \<in> set candidates" unfolding d7 by simp
            with \<open>k = relativePath f\<close> show ?thesis by blast
          next
            case 2
            then show ?thesis using f5(4) h1(5) d1(4) by auto
          qed
        qed
        show ?thesis
        proof (cases r6)
          case (Some err)
          with run rw have "thrown = Some err" "c' = c6" "d' = d" by simp_all
          then show ?thesis using d1 h1 f5 r1 inv6 by simp
        next
          case None
          from run rw None
          have fi: "finishIndex env (ra \<or> todo \<noteq> []) (c6, d, t6) = (thrown, c', d', t')"
            by simp
          note ff = finishIndex_fields[OF fi]
          note f7 = ff[THEN conjunct1] ff[THEN conjunct2, THEN conjunct1] ff[THEN conjunct2, THEN conjunct2, THEN conjunct1] ff[THEN conjunct2, THEN conjunct2, THEN conjunct2, THEN conjunct1] ff[THEN conjunct2, THEN conjunct2, THEN conjunct2, THEN conjunct2, THEN conjunct1] ff[THEN conjunct2, THEN conjunct2, THEN conjunct2, THEN conjunct2, THEN conjunct2, THEN conjunct1]
          have i7: "cacheInv c' = cacheInv c6" by (rule cacheInv_cong) (simp_all add: f7)
          have fp6: "folderPath c6 = folderPath c0" using r1 f5 h1 d1 by simp
          have rv6: "indexRevision c6 = indexRevision c0" using r1(1) f5(1) h1(1) d1(1) by simp
          have A: "folderPath c' = folderPath c0" using f7 fp6 by simp
          have B: "cacheInv c0 \<longrightarrow> cacheInv c'" using inv6 i7 by simp
          have D: "\<exists>candidates. scanDirectory env (folderPath c0) = Inr candidates
               \<and> dom (map_of (fileStates c')) \<subseteq> relativePath ` set candidates"
            using Inr dom6 f7(2) by auto
          have S: "ra \<or> todo \<noteq> [] \<Longrightarrow>
                     indexRevision c' = indexRevision c0 + 1
                     \<and> (\<exists>mk wr now. saveToDisk mk wr now d (folderPath c0) (chunks c') (fileStates c')
                                        = (thrown, d'))"
          proof -
            assume ch: "ra \<or> todo \<noteq> []"
            have "indexRevision c' = indexRevision c0 + 1" using ch f7(4) rv6 by simp
            moreover have "saveToDisk (mkdir env t6) (writeFile env t6) (dateNow env t6) d
                             (folderPath c0) (chunks c') (fileStates c') = (thrown, d')"
              using ch f7(1,2,5) fp6 by simp
            ultimately show ?thesis by blast
          qed
          have N: "\<not> (ra \<or> todo \<noteq> []) \<Longrightarrow>
                     thrown = None \<and> indexRevision c' = indexRevision c0 \<and> d' = d
                     \<and> chunks c' = chunks c0
                     \<and> map (\<lambda>e. (fst e, sContentHash (snd e), sChunkIds (snd e))) (fileStates c') =
                       map (\<lambda>e. (fst e, sContentHash (snd e), sChunkIds (snd e))) (fileStates c0)"
          proof -
            assume nch: "\<not> (ra \<or> todo \<noteq> [])"
            then have nr: "\<not> ra" and nt: "todo = []" by auto
            from nt r5 have c65: "c6 = c5" by simp
            have "thrown = None \<and> d' = d" using nch f7(5) by simp
            moreover have "indexRevision c' = indexRevision c0" using nch f7(4) rv6 by simp
            moreover have "chunks c' = chunks c0" using f7(1) c65 f5(3) h1(3) d1(5) nr by simp
            moreover have "map (\<lambda>e. (fst e, sContentHash (snd e), sChunkIds (snd e))) (fileStates c') =
                   map (\<lambda>e. (fst e, sContentHash (snd e), sChunkIds (snd e))) (fileStates c0)"
              using f7(2) c65 f5(4) h1(7) d1(5) nr by simp
            ultimately show ?thesis by blast
          qed
          have C: "thrown \<noteq> None \<longrightarrow>
            (d' = d \<and> indexRevision c' = indexRevision c0)
            \<or> (indexRevision c' = indexRevision c0 + 1
                \<and> (\<exists>mk wr now. saveToDisk mk wr now d (folderPath c0) (chunks c') (fileStates c')
                                   = (thrown, d')))"
            using S N by blast
          have E: "thrown = None \<longrightarrow>
               (indexRevision c' = indexRevision c0 \<and> d' = d \<and> chunks c' = chunks c0
                 \<and> map (\<lambda>e. (fst e, sContentHash (snd e), sChunkIds (snd e))) (fileStates c') =
                   map (\<lambda>e. (fst e, sContentHash (snd e), sChunkIds (snd e))) (fileStates c0))
               \<or> (indexRevision c' = indexRevision c0 + 1
                   \<and> (\<exists>mk wr now. saveToDisk mk wr now d (folderPath c0) (chunks c') (fileStates c')
                                      = (None, d')))"
          proof
            assume tn: "thrown = None"
            show "(indexRevision c' = indexRevision c0 \<and> d' = d \<and> chunks c' = chunks c0
                 \<and> map (\<lambda>e. (fst e, sContentHash (snd e), sChunkIds (snd e))) (fileStates c') =
                   map (\<lambda>e. (fst e, sContentHash (snd e), sChunkIds (snd e))) (fileStates c0))
               \<or> (indexRevision c' = indexRevision c0 + 1
                   \<and> (\<exists>mk wr now. saveToDisk mk wr now d (folderPath c0) (chunks c') (fileStates c')
                                      = (None, d')))"
            proof (cases "ra \<or> todo \<noteq> []")
              case True
              from S[OF True] show ?thesis unfolding tn by blast
            next
              case False
              from N[OF False] show ?thesis by blast
            qed
          qed
          have F: "phase (status c') = Ready" by (rule f7(6))
          show ?thesis using A B C D E F by blast
        qed
      qed
    qed
  qed
qed

lemma catchIndex_fields:
  "chunks (catchIndex err c) = chunks c" "fileStates (catchIndex err c) = fileStates c"
  "indexRevision (catchIndex err c) = indexRevision c" "folderPath (catchIndex err c) = folderPath c"
  "phase (status (catchIndex err c)) = (if isAbortError err then Idle else Failed)"
  "isAbortError err \<Longrightarrow> message (status (catchIndex err c)) = Some (js ''Indexing was cancelled'')"
  by (simp_all add: catchIndex_def)

text \<open>
  \<open>index\<close> on a cache is the \<open>try\<close> block on the configured cache, followed by the
  \<open>catch\<close> clause when an exception left the block.
\<close>

lemma indexCache_split:
  assumes "indexCache env options (c, d, t) = Some (thrown, c', d', t')"
  obtains cfg cb where
    "chunks (fst (ensurePersistedLoaded env d (cfg, t))) = chunks (fst (ensurePersistedLoaded env d (c, t)))"
    "fileStates (fst (ensurePersistedLoaded env d (cfg, t))) = fileStates (fst (ensurePersistedLoaded env d (c, t)))"
    "indexRevision cfg = indexRevision c" "folderPath cfg = folderPath c"
    "indexBody env (case concurrency options of Some n \<Rightarrow> n | None \<Rightarrow> FILE_EMBED_CONCURRENCY)
       (case embedBatchSize options of Some b \<Rightarrow> b | None \<Rightarrow> EMBED_BATCH_SIZE)
       (cfg, d, t) = Some (thrown, cb, d', t')"
    "c' = (case thrown of None \<Rightarrow> cb | Some err \<Rightarrow> catchIndex err cb)"
proof -
  define cfg where "cfg = c\<lparr>
            configEnabled := True,
            storagePath := (case outputFolder options of
                              Some out \<Rightarrow> if out \<noteq> [] then Some (normalizeFolderPath out)
                                          else storagePath c
                            | None \<Rightarrow> storagePath c),
            status := (status c)\<lparr>enabled := True, phase := Scanning,
                                     message := Some (js ''Scanning files...'')\<rparr>\<rparr>"
  let ?cl = "case concurrency options of Some n \<Rightarrow> n | None \<Rightarrow> FILE_EMBED_CONCURRENCY"
  let ?b = "case embedBatchSize options of Some b \<Rightarrow> b | None \<Rightarrow> EMBED_BATCH_SIZE"
  have unf: "indexCache env options (c, d, t) =
      (case indexBody env ?cl ?b (cfg, d, t) of
           None \<Rightarrow> None
         | Some (None, cache', d', t') \<Rightarrow> Some (None, cache', d', t')
         | Some (Some err, cache', d', t') \<Rightarrow> Some (Some err, catchIndex err cache', d', t'))"
    unfolding indexCache_def cfg_def by (simp add: Let_def)
  from assms unf obtain res where res: "indexBody env ?cl ?b (cfg, d, t) = Some res"
    by (cases "indexBody env ?cl ?b (cfg, d, t)") auto
  obtain th cb db tb where r: "res = (th, cb, db, tb)" by (cases res) auto
  have e: "th = thrown \<and> db = d' \<and> tb = t' \<and> c' = (case thrown of None \<Rightarrow> cb | Some err \<Rightarrow> catchIndex err cb)"
    using assms unf res r by (cases th) auto
  have p1: "chunks (fst (ensurePersistedLoaded env d (cfg, t))) = chunks (fst (ensurePersistedLoaded env d (c, t)))"
    unfolding cfg_def by (rule ensurePersistedLoaded_configured)
  have p2: "fileStates (fst (ensurePersistedLoaded env d (cfg, t))) = fileStates (fst (ensurePersistedLoaded env d (c, t)))"
    unfolding cfg_def by (rule ensurePersistedLoaded_configured)
  have p3: "indexRevision cfg = indexRevision c" "folderPath cfg = folderPath c"
    unfolding cfg_def by simp_all
  show ?thesis
    using that[OF p1 p2 p3, of cb] res r e by simp
qed

text \<open>
  \<open>index\<close> preserves \<open>cacheInv\<close>. When the cache with which a transaction starts (as
  \<open>ensurePersistedLoaded\<close> returns it) satisfies \<open>cacheInv\<close>, then after \<open>index\<close>
  every chunk id listed by a file state is a key of the chunks map, every key of the
  chunks map is listed by exactly one file state, and \<open>cacheInv\<close> holds again. After a
  completed transaction no chunk id of a tracked file that the scan no longer finds is a
  key of the chunks map. Nothing in \<open>index\<close> establishes \<open>cacheInv\<close> when the loaded
  cache does not satisfy it.
\<close>

lemma index_preserves_cacheInv:
  assumes run: "indexCache env options (c, d, t) = Some (thrown, c', d', t')"
      and inv: "cacheInv (fst (ensurePersistedLoaded env d (c, t)))"
  shows "(\<forall>p st cid. map_of (fileStates c') p = Some st \<and> cid \<in> set (sChunkIds st) \<longrightarrow>
            cid \<in> fst ` set (chunks c'))
       \<and> (\<forall>cid\<in>fst ` set (chunks c').
            \<exists>!p. \<exists>st. map_of (fileStates c') p = Some st \<and> cid \<in> set (sChunkIds st))
       \<and> (thrown = None \<longrightarrow>
            (\<forall>candidates p st cid.
               scanDirectory env (folderPath c) = Inr candidates
               \<and> map_of (fileStates (fst (ensurePersistedLoaded env d (c, t)))) p = Some st
               \<and> p \<notin> relativePath ` set candidates \<and> cid \<in> set (sChunkIds st) \<longrightarrow>
               cid \<notin> fst ` set (chunks c')))
       \<and> cacheInv c'"
proof -
  from run obtain cfg cb where
    l1: "chunks (fst (ensurePersistedLoaded env d (cfg, t))) = chunks (fst (ensurePersistedLoaded env d (c, t)))"
    and l2: "fileStates (fst (ensurePersistedLoaded env d (cfg, t))) = fileStates (fst (ensurePersistedLoaded env d (c, t)))"
    and cf: "indexRevision cfg = indexRevision c" "folderPath cfg = folderPath c"
    and body: "indexBody env (case concurrency options of Some n \<Rightarrow> n | None \<Rightarrow> FILE_EMBED_CONCURRENCY)
       (case embedBatchSize options of Some b \<Rightarrow> b | None \<Rightarrow> EMBED_BATCH_SIZE)
       (cfg, d, t) = Some (thrown, cb, d', t')"
    and c': "c' = (case thrown of None \<Rightarrow> cb | Some err \<Rightarrow> catchIndex err cb)"
    by (rule indexCache_split)
  let ?c0 = "fst (ensurePersistedLoaded env d (cfg, t))"
  let ?l = "fst (ensurePersistedLoaded env d (c, t))"
  have inv0: "cacheInv ?c0" using inv cacheInv_cong[OF l1 l2] by simp
  note br = indexBody_result[OF body]
  have invb: "cacheInv cb" using br[THEN conjunct2, THEN conjunct1] inv0 by simp
  have same: "chunks c' = chunks cb" "fileStates c' = fileStates cb"
    unfolding c' by (simp_all add: catchIndex_fields split: option.splits)
  have invc: "cacheInv c'" using invb cacheInv_cong[OF same] by simp
  have a: "\<And>p st cid. map_of (fileStates c') p = Some st \<Longrightarrow> cid \<in> set (sChunkIds st) \<Longrightarrow>
             cid \<in> fst ` set (chunks c') \<and> isChunkIdOf p cid"
    and b: "\<And>cid. cid \<in> fst ` set (chunks c') \<Longrightarrow>
             \<exists>p st. map_of (fileStates c') p = Some st \<and> cid \<in> set (sChunkIds st)"
    using invc unfolding cacheInv_alt by blast+
  have g1: "\<forall>p st cid. map_of (fileStates c') p = Some st \<and> cid \<in> set (sChunkIds st) \<longrightarrow>
            cid \<in> fst ` set (chunks c')"
    using a by blast
  have g2: "\<forall>cid\<in>fst ` set (chunks c').
            \<exists>!p. \<exists>st. map_of (fileStates c') p = Some st \<and> cid \<in> set (sChunkIds st)"
  proof
    fix cid assume k: "cid \<in> fst ` set (chunks c')"
    from b[OF k] obtain p st where p: "map_of (fileStates c') p = Some st" "cid \<in> set (sChunkIds st)"
      by blast
    show "\<exists>!p. \<exists>st. map_of (fileStates c') p = Some st \<and> cid \<in> set (sChunkIds st)"
    proof (rule ex1I[of _ p])
      show "\<exists>st. map_of (fileStates c') p = Some st \<and> cid \<in> set (sChunkIds st)" using p by blast
    next
      fix q assume "\<exists>st. map_of (fileStates c') q = Some st \<and> cid \<in> set (sChunkIds st)"
      then obtain st' where q: "map_of (fileStates c') q = Some st'" "cid \<in> set (sChunkIds st')"
        by blast
      from a[OF p] a[OF q] show "q = p" using isChunkIdOf_inj by blast
    qed
  qed
  have g3: "thrown = None \<longrightarrow>
            (\<forall>candidates p st cid.
               scanDirectory env (folderPath c) = Inr candidates
               \<and> map_of (fileStates ?l) p = Some st
               \<and> p \<notin> relativePath ` set candidates \<and> cid \<in> set (sChunkIds st) \<longrightarrow>
               cid \<notin> fst ` set (chunks c'))"
  proof (intro impI allI)
    fix candidates p st cid
    assume n: "thrown = None"
    assume h: "scanDirectory env (folderPath c) = Inr candidates
               \<and> map_of (fileStates ?l) p = Some st
               \<and> p \<notin> relativePath ` set candidates \<and> cid \<in> set (sChunkIds st)"
    from br[THEN conjunct2, THEN conjunct2, THEN conjunct2] n obtain cands where
      cs: "scanDirectory env (folderPath ?c0) = Inr cands"
          "dom (map_of (fileStates cb)) \<subseteq> relativePath ` set cands"
      by blast
    have "folderPath ?c0 = folderPath c" by (simp add: ensurePersistedLoaded_fields cf)
    with cs h have ce: "cands = candidates" by simp
    have shape: "isChunkIdOf p cid"
      using inv h unfolding cacheInv_alt by blast
    show "cid \<notin> fst ` set (chunks c')"
    proof
      assume "cid \<in> fst ` set (chunks c')"
      from b[OF this] obtain q st' where q: "map_of (fileStates c') q = Some st'" "cid \<in> set (sChunkIds st')"
        by blast
      from a[OF q] shape have "q = p" using isChunkIdOf_inj by blast
      with q(1) have "p \<in> dom (map_of (fileStates cb))" unfolding same by blast
      with cs(2) ce h show False by blast
    qed
  qed
  show ?thesis by (intro conjI g1 g2 g3 invc)
qed

subsection \<open>Transactions on the example folder\<close>

lemma runWithConcurrency_Nil: "runWithConcurrency env n b [] w = Some (None, w)"
  by (simp add: runWithConcurrency_def)

lemmas ex_index_simps =
  indexCache_def indexBody_def detectChanges_def ensurePersistedLoaded_def loadFromDisk_def
  readStoreFile_def loadDb_def loadIndex_def newCache_def initialStatus_def
  rebuildAnnIndex_def build_def getDbSizeBytes_def exEnv_sel exTwoFiles_def exOptions_def
  Let_def aborted_def unchangedMeta_def exFile_def exCache_def exState_def exChunk_def
  EMBED_BATCH_SIZE_def FILE_EMBED_CONCURRENCY_def catchIndex_def isAbortError_def abortError_def
  runWithConcurrency_Nil upsertFile_def insertChunk_def removeChunks_def
  finishIndex_def saveToDisk_def chunkIdFor_def decimal_digit digitChars_def
  normalizeFolderPath_def defaultLshOptions_def addToBucket_def signatureForEmbedding_def
  ex_paths_chars

lemmas ex_store_simps =
  exIndexOnlyStore_def exDbOnlyStore_def indexPayload_def dbPayload_def stateToJson_def
  chunkToJson_def objectEntries_def field_def loadState_def loadChunk_def chunkOfJson_def
  numbersOf_def truthy_def isNumber_def isArray_def RAG_DB_VERSION_def RAG_INDEX_VERSION_def

text \<open>
  Two files and two workers, of which the first always runs on; the signal aborts at
  clock \<open>t + 2\<close>, while the chunk of the first file is embedded.
\<close>

lemma ex_pool_two_abort:
  "a = t + 2 \<Longrightarrow>
   runWithConcurrency (exEnv fs (Some a) None) 2 16 [(f, content, h), (g, content', h')]
     (c, t)
   = Some (Some (DOMException (js ''AbortError'') (js ''Aborted'')),
           upsertFile f h [\<lparr>rContent = content, rSymbols = None\<rparr>] [[1]] c, t + 3)"
  by (simp add: ex_pool_simps Let_def exEnv_sel aborted_def abortError_def)

lemma ex_cacheInv: "cacheInv exTwoFiles"
  by (simp add: cacheInv_def isChunkIdOf_def exTwoFiles_def exCache_def exState_def chunkIdFor_def
        decimal_digit digitChars_def newCache_def js_def)

text \<open>\<open>b.md\<close> is unchanged and \<open>a.md\<close> is gone from the tree.\<close>

lemma ex_index_after_delete:
  "\<exists>c' d' t'.
     indexCache (exEnv [exFile (js ''b.md'') 1] None None) exOptions (exTwoFiles, Map.empty, 0)
     = Some (None, c', d', t')
     \<and> map fst (chunks c') = [js ''b.md::0'']
     \<and> map fst (fileStates c') = [js ''b.md'']
     \<and> indexRevision c' = 2"
  by (simp add: ex_index_simps js_def)

text \<open>\<open>a.md\<close> has a new modification time and the content it had, \<open>b.md\<close> is unchanged.\<close>

lemma ex_index_touched:
  "\<exists>c' t'.
     indexCache (exEnv [exFile (js ''a.md'') 2, exFile (js ''b.md'') 1] None None) exOptions
       (exTwoFiles, Map.empty, 0)
     = Some (None, c', Map.empty, t')
     \<and> fileStates c' = [(js ''a.md'', exState 2 [js ''a.md::0'']),
                        (js ''b.md'', exState 1 [js ''b.md::0''])]
     \<and> chunks c' = chunks exTwoFiles
     \<and> indexRevision c' = 1
     \<and> skippedUnchanged (status c') = 2 \<and> totalFiles (status c') = 2"
  by (simp add: ex_index_simps js_def)

text \<open>
  \<open>a.md\<close> has a new modification time, \<open>b.md\<close> is gone, and the signal aborts at clock 2,
  while \<open>a.md\<close> is read.
\<close>

lemma ex_index_abort_unobserved:
  "\<exists>c' d' t'.
     indexCache (exEnv [exFile (js ''a.md'') 2] (Some 2) None) exOptions (exTwoFiles, Map.empty, 0)
     = Some (None, c', d', t')
     \<and> 2 < t'
     \<and> phase (status c') = Ready
     \<and> message (status c') = Some (js ''RAG index is ready'')
     \<and> indexRevision c' = 2
     \<and> d' (dbPath (js ''/a'')) \<noteq> None"
  by (simp add: ex_index_simps js_def)

text \<open>
  A new folder with two files, and the signal aborts at clock 7, while the chunk of
  \<open>a.md\<close> is embedded.
\<close>

lemma ex_index_abort_observed:
  "\<exists>c' d' t'.
     indexCache (exEnv [exFile (js ''a.md'') 1, exFile (js ''b.md'') 1] (Some 7) None) exOptions
       (newCache (js ''/a''), Map.empty, 0)
     = Some (Some (DOMException (js ''AbortError'') (js ''Aborted'')), c', d', t')
     \<and> map fst (chunks c') = [js ''a.md::0'']
     \<and> phase (status c') = Idle
     \<and> message (status c') = Some (js ''Indexing was cancelled'')
     \<and> indexRevision c' = 0
     \<and> d' (dbPath (js ''/a'')) = None \<and> d' (indexPath (js ''/a'')) = None"
  by (simp add: ex_index_simps ex_pool_two_abort js_def)

text \<open>
  \<open>a.md\<close> is gone from the tree and \<open>writeFile\<close> rejects for \<open>.rag-index\<close>: the call
  ends in its \<open>catch\<close> clause with \<open>.rag-db\<close> written and the revision incremented.
\<close>

lemma ex_index_save_fails:
  "\<exists>c' d' t'.
     indexCache ((exEnv [exFile (js ''b.md'') 1] None None)
                   \<lparr>writeFile := (\<lambda>_ p. if p = indexPath (js ''/a'')
                                         then Some (Error (js ''ENOSPC'')) else None)\<rparr>)
       exOptions (exTwoFiles, Map.empty, 0)
     = Some (Some (Error (js ''ENOSPC'')), c', d', t')
     \<and> phase (status c') = Failed
     \<and> indexRevision c' = 2
     \<and> d' (dbPath (js ''/a'')) \<noteq> None \<and> d' (indexPath (js ''/a'')) = None"
  by (simp add: ex_index_simps js_def)

text \<open>
  The store holds \<open>.rag-index\<close> only and the scan finds \<open>a.md\<close> as the file state has
  it; the store holds \<open>.rag-db\<close> only and the scan finds nothing.
\<close>

lemma ex_index_index_only_store:
  "\<exists>c' t'.
     indexCache (exEnv [exFile (js ''a.md'') 1] None None) exOptions
       (newCache (js ''/a''), exIndexOnlyStore, 0)
     = Some (None, c', exIndexOnlyStore, t')
     \<and> phase (status c') = Ready
     \<and> fileStates c' = [(js ''a.md'', exState 1 [js ''a.md::0''])]
     \<and> chunks c' = []"
  by (simp add: ex_index_simps ex_store_simps js_def)

lemma ex_index_db_only_store:
  "\<exists>c' t'.
     indexCache (exEnv [] None None) exOptions (newCache (js ''/a''), exDbOnlyStore, 0)
     = Some (None, c', exDbOnlyStore, t')
     \<and> phase (status c') = Ready
     \<and> map fst (chunks c') = [js ''a.md::0'']
     \<and> fileStates c' = []"
  by (simp add: ex_index_simps ex_store_simps js_def)

section \<open>The claims about the indexing transaction\<close>

lemma ensurePersistedLoaded_clock:
  "snd (ensurePersistedLoaded env d (c\<lparr>configEnabled := a, storagePath := sp, status := s\<rparr>, t))
     = snd (ensurePersistedLoaded env d (c, t))"
  by (simp add: ensurePersistedLoaded_def Let_def)

lemma ex_loaded: "ensurePersistedLoaded env d (exTwoFiles, t) = (exTwoFiles, t)"
  by (rule ensurePersistedLoaded_fields) (simp add: exTwoFiles_def exCache_def)

text \<open>
  On the example folder, where \<open>cacheInv\<close> holds before the call and \<open>a.md\<close> is gone
  from the tree, the chunk id of \<open>a.md\<close> is no key of the chunks map afterwards.
\<close>

lemma ex_index_preserves_cacheInv:
  "cacheInv (fst (ensurePersistedLoaded (exEnv [exFile (js ''b.md'') 1] None None) Map.empty
                    (exTwoFiles, 0)))
   \<and> map_of (fileStates exTwoFiles) (js ''a.md'') = Some (exState 1 [js ''a.md::0''])
   \<and> js ''a.md::0'' \<notin> fst ` set (chunks (fst (snd (the
        (indexCache (exEnv [exFile (js ''b.md'') 1] None None) exOptions
           (exTwoFiles, Map.empty, 0))))))
   \<and> cacheInv (fst (snd (the
        (indexCache (exEnv [exFile (js ''b.md'') 1] None None) exOptions
           (exTwoFiles, Map.empty, 0)))))"
proof -
  let ?E = "exEnv [exFile (js ''b.md'') 1] None None"
  from ex_index_after_delete obtain c' d' t' where
    run: "indexCache ?E exOptions (exTwoFiles, Map.empty, 0) = Some (None, c', d', t')"
    by blast
  have inv: "cacheInv (fst (ensurePersistedLoaded ?E Map.empty (exTwoFiles, 0)))"
    by (simp add: ex_loaded ex_cacheInv)
  have st: "map_of (fileStates exTwoFiles) (js ''a.md'') = Some (exState 1 [js ''a.md::0''])"
    by (simp add: exTwoFiles_def exCache_def chunkIdFor_def decimal_digit digitChars_def js_def)
  note th = index_preserves_cacheInv[OF run inv]
  have gone: "js ''a.md::0'' \<notin> fst ` set (chunks c')"
  proof -
    have "scanDirectory ?E (folderPath exTwoFiles) = Inr [exFile (js ''b.md'') 1]
          \<and> map_of (fileStates (fst (ensurePersistedLoaded ?E Map.empty (exTwoFiles, 0))))
               (js ''a.md'') = Some (exState 1 [js ''a.md::0''])
          \<and> js ''a.md'' \<notin> relativePath ` set [exFile (js ''b.md'') 1]
          \<and> js ''a.md::0'' \<in> set (sChunkIds (exState 1 [js ''a.md::0'']))"
      using st by (simp add: ex_loaded exEnv_sel exFile_def exState_def js_def)
    with th[THEN conjunct2, THEN conjunct2, THEN conjunct1] show ?thesis by blast
  qed
  have invc: "cacheInv c'" using th[THEN conjunct2, THEN conjunct2, THEN conjunct2] .
  show ?thesis using inv st gone invc by (simp add: run)
qed

text \<open>
  Claim C3 against the code. \<open>loadFromDisk\<close> reads \<open>.rag-db\<close> and \<open>.rag-index\<close>
  independently of each other, and \<open>index\<close> never compares the chunks map with the
  file states. With a store that holds \<open>.rag-index\<close> but no \<open>.rag-db\<close>, and a scan that
  finds \<open>a.md\<close> with the recorded \<open>modifiedAt\<close> and \<open>size\<close>, \<open>index\<close> completes with
  phase \<open>ready\<close> while the file state of \<open>a.md\<close> lists the chunk id \<open>a.md::0\<close>, which is
  no key of the chunks map. With a store that holds \<open>.rag-db\<close> but no \<open>.rag-index\<close>, and
  a scan that finds no file, \<open>index\<close> completes with phase \<open>ready\<close> while \<open>a.md::0\<close> is a
  key of the chunks map that no file state lists.
\<close>

theorem index_completes_with_inconsistent_maps:
  "exIndexOnlyStore (dbPath (js ''/a'')) = None
   \<and> fst (the (indexCache (exEnv [exFile (js ''a.md'') 1] None None) exOptions
                 (newCache (js ''/a''), exIndexOnlyStore, 0))) = None
   \<and> phase (status (fst (snd (the (indexCache (exEnv [exFile (js ''a.md'') 1] None None)
                                      exOptions (newCache (js ''/a''), exIndexOnlyStore, 0))))))
       = Ready
   \<and> map_of (fileStates (fst (snd (the (indexCache (exEnv [exFile (js ''a.md'') 1] None None)
                                          exOptions (newCache (js ''/a''), exIndexOnlyStore, 0))))))
         (js ''a.md'')
       = Some \<lparr>sModifiedAt = 1, sSize = 5, sContentHash = js ''h'',
               sChunkIds = [js ''a.md::0'']\<rparr>
   \<and> map_of (chunks (fst (snd (the (indexCache (exEnv [exFile (js ''a.md'') 1] None None)
                                      exOptions (newCache (js ''/a''), exIndexOnlyStore, 0))))))
         (js ''a.md::0'')
       = None
   \<and> exDbOnlyStore (indexPath (js ''/a'')) = None
   \<and> fst (the (indexCache (exEnv [] None None) exOptions
                 (newCache (js ''/a''), exDbOnlyStore, 0))) = None
   \<and> phase (status (fst (snd (the (indexCache (exEnv [] None None) exOptions
                                      (newCache (js ''/a''), exDbOnlyStore, 0))))))
       = Ready
   \<and> map fst (chunks (fst (snd (the (indexCache (exEnv [] None None) exOptions
                                       (newCache (js ''/a''), exDbOnlyStore, 0))))))
       = [js ''a.md::0'']
   \<and> fileStates (fst (snd (the (indexCache (exEnv [] None None) exOptions
                                  (newCache (js ''/a''), exDbOnlyStore, 0)))))
       = []"
proof -
  from ex_index_index_only_store obtain c1 t1 where
    r1: "indexCache (exEnv [exFile (js ''a.md'') 1] None None) exOptions
           (newCache (js ''/a''), exIndexOnlyStore, 0) = Some (None, c1, exIndexOnlyStore, t1)"
    and p1: "phase (status c1) = Ready"
    and f1: "fileStates c1 = [(js ''a.md'', exState 1 [js ''a.md::0''])]"
    and k1: "chunks c1 = []"
    by (elim exE conjE) (rule that)
  from ex_index_db_only_store obtain c2 t2 where
    r2: "indexCache (exEnv [] None None) exOptions (newCache (js ''/a''), exDbOnlyStore, 0)
           = Some (None, c2, exDbOnlyStore, t2)"
    and p2: "phase (status c2) = Ready"
    and k2: "map fst (chunks c2) = [js ''a.md::0'']"
    and f2: "fileStates c2 = []"
    by (elim exE conjE) (rule that)
  have n1: "exIndexOnlyStore (dbPath (js ''/a'')) = None"
    using dbPath_neq_indexPath[of "js ''/a''"] by (simp add: exIndexOnlyStore_def)
  have n2: "exDbOnlyStore (indexPath (js ''/a'')) = None"
    using dbPath_neq_indexPath[of "js ''/a''"] by (simp add: exDbOnlyStore_def)
  show ?thesis using n1 n2 p1 p2 k2 by (simp add: r1 r2 f1 k1 f2 exState_def)
qed

text \<open>
  Claim C2 as stated fails on the content-hash fast path. \<open>a.md\<close> is tracked with
  modification time 1 and hash \<open>h\<close>; the scan finds it with modification time 2 and the
  same content. The transaction completes, the file state of \<open>a.md\<close> is replaced by one
  with modification time 2, and \<open>indexRevision\<close> is 1 before and after.
\<close>

theorem hash_fast_path_keeps_revision_counterexample:
  "fst (the (indexCache (exEnv [exFile (js ''a.md'') 2, exFile (js ''b.md'') 1] None None)
               exOptions (exTwoFiles, Map.empty, 0))) = None
   \<and> map_of (fileStates exTwoFiles) (js ''a.md'') = Some (exState 1 [js ''a.md::0''])
   \<and> map_of (fileStates (fst (snd (the
        (indexCache (exEnv [exFile (js ''a.md'') 2, exFile (js ''b.md'') 1] None None)
           exOptions (exTwoFiles, Map.empty, 0)))))) (js ''a.md'')
       = Some (exState 2 [js ''a.md::0''])
   \<and> exState 2 [js ''a.md::0''] \<noteq> exState 1 [js ''a.md::0'']
   \<and> indexRevision exTwoFiles = 1
   \<and> indexRevision (fst (snd (the
        (indexCache (exEnv [exFile (js ''a.md'') 2, exFile (js ''b.md'') 1] None None)
           exOptions (exTwoFiles, Map.empty, 0))))) = 1"
proof -
  from ex_index_touched obtain c' t' where
    run: "indexCache (exEnv [exFile (js ''a.md'') 2, exFile (js ''b.md'') 1] None None) exOptions
            (exTwoFiles, Map.empty, 0) = Some (None, c', Map.empty, t')"
    and fs: "fileStates c' = [(js ''a.md'', exState 2 [js ''a.md::0'']),
                              (js ''b.md'', exState 1 [js ''b.md::0''])]"
    and rev: "indexRevision c' = 1"
    by blast
  have st: "map_of (fileStates exTwoFiles) (js ''a.md'') = Some (exState 1 [js ''a.md::0''])"
    by (simp add: exTwoFiles_def exCache_def chunkIdFor_def decimal_digit digitChars_def js_def)
  have r1: "indexRevision exTwoFiles = 1" by (simp add: exTwoFiles_def exCache_def)
  have ne: "exState 2 [js ''a.md::0''] \<noteq> exState 1 [js ''a.md::0'']" by (simp add: exState_def)
  show ?thesis using st r1 ne by (simp add: run fs rev)
qed

text \<open>
  Claim C2, amended. A completed transaction leaves \<open>indexRevision\<close> as it was or
  increases it by one. It increases it by one whenever the chunks map differs from the
  one of the cache as loaded at the start of the transaction, or the file states differ
  from the loaded ones in a tracked path, a content hash or a list of chunk ids. (The
  fast path changes \<open>modifiedAt\<close> and \<open>size\<close> of a file state only.)
\<close>

theorem index_revision_advances_with_content:
  assumes run: "indexCache env options (c, d, t) = Some (None, c', d', t')"
  shows "(indexRevision c' = indexRevision c \<or> indexRevision c' = indexRevision c + 1)
       \<and> (chunks c' \<noteq> chunks (fst (ensurePersistedLoaded env d (c, t)))
          \<or> map (\<lambda>e. (fst e, sContentHash (snd e), sChunkIds (snd e))) (fileStates c')
            \<noteq> map (\<lambda>e. (fst e, sContentHash (snd e), sChunkIds (snd e)))
                 (fileStates (fst (ensurePersistedLoaded env d (c, t))))
          \<longrightarrow> indexRevision c' = indexRevision c + 1)"
proof -
  from run obtain cfg cb where
    l1: "chunks (fst (ensurePersistedLoaded env d (cfg, t))) = chunks (fst (ensurePersistedLoaded env d (c, t)))"
    and l2: "fileStates (fst (ensurePersistedLoaded env d (cfg, t))) = fileStates (fst (ensurePersistedLoaded env d (c, t)))"
    and cf: "indexRevision cfg = indexRevision c" "folderPath cfg = folderPath c"
    and body: "indexBody env (case concurrency options of Some n \<Rightarrow> n | None \<Rightarrow> FILE_EMBED_CONCURRENCY)
       (case embedBatchSize options of Some b \<Rightarrow> b | None \<Rightarrow> EMBED_BATCH_SIZE)
       (cfg, d, t) = Some (None, cb, d', t')"
    and c': "c' = (case (None :: js_error option) of None \<Rightarrow> cb | Some err \<Rightarrow> catchIndex err cb)"
    by (rule indexCache_split)
  let ?c0 = "fst (ensurePersistedLoaded env d (cfg, t))"
  have cb: "c' = cb" using c' by simp
  have r0: "indexRevision ?c0 = indexRevision c" by (simp add: ensurePersistedLoaded_fields cf)
  note br = indexBody_result[OF body]
  from br[THEN conjunct2, THEN conjunct2, THEN conjunct2]
  have alt: "(indexRevision cb = indexRevision ?c0 \<and> d' = d \<and> chunks cb = chunks ?c0
                \<and> map (\<lambda>e. (fst e, sContentHash (snd e), sChunkIds (snd e))) (fileStates cb) =
                  map (\<lambda>e. (fst e, sContentHash (snd e), sChunkIds (snd e))) (fileStates ?c0))
             \<or> (indexRevision cb = indexRevision ?c0 + 1
                 \<and> (\<exists>mk wr now. saveToDisk mk wr now d (folderPath ?c0) (chunks cb) (fileStates cb)
                                    = (None, d')))"
    by simp
  then show ?thesis unfolding cb r0 l1 l2 by blast
qed

theorem index_revision_advances_with_content_witness:
  "chunks (fst (snd (the (indexCache (exEnv [exFile (js ''b.md'') 1] None None) exOptions
                            (exTwoFiles, Map.empty, 0)))))
     \<noteq> chunks (fst (ensurePersistedLoaded (exEnv [exFile (js ''b.md'') 1] None None) Map.empty
                      (exTwoFiles, 0)))
   \<and> indexRevision (fst (snd (the (indexCache (exEnv [exFile (js ''b.md'') 1] None None)
                                     exOptions (exTwoFiles, Map.empty, 0)))))
     = indexRevision exTwoFiles + 1"
proof -
  let ?E = "exEnv [exFile (js ''b.md'') 1] None None"
  from ex_index_after_delete obtain c' d' t' where
    run: "indexCache ?E exOptions (exTwoFiles, Map.empty, 0) = Some (None, c', d', t')"
    and ks: "map fst (chunks c') = [js ''b.md::0'']"
    by (elim exE conjE) (rule that)
  have "length (map fst (chunks c')) \<noteq> length (map fst (chunks exTwoFiles))"
    unfolding ks by (simp add: exTwoFiles_def exCache_def)
  then have ne: "chunks c' \<noteq> chunks (fst (ensurePersistedLoaded ?E Map.empty (exTwoFiles, 0)))"
    unfolding ex_loaded by auto
  from index_revision_advances_with_content[OF run, THEN conjunct2] ne
  have "indexRevision c' = indexRevision exTwoFiles + 1" by blast
  with ne show ?thesis by (simp add: run)
qed

text \<open>
  Claim C4 against the code. \<open>a.md\<close> has a new modification time and the content it
  had, \<open>b.md\<close> is gone, and the signal aborts at clock 2, while \<open>a.md\<close> is read for its
  hash. No file is left to embed, and \<open>runWithConcurrency\<close> returns at
  \<open>items.length === 0\<close> before the test of the signal that it makes when there are
  items. The call ends at a later clock with phase \<open>ready\<close> and the message
  \<open>RAG index is ready\<close>, with revision 2 instead of 1, and with a written \<open>.rag-db\<close>.
\<close>

theorem index_completes_after_abort:
  "abortAt (exEnv [exFile (js ''a.md'') 2] (Some 2) None) = Some 2
   \<and> abortReason (exEnv [exFile (js ''a.md'') 2] (Some 2) None) = None
   \<and> fst (the (indexCache (exEnv [exFile (js ''a.md'') 2] (Some 2) None)
                 exOptions (exTwoFiles, Map.empty, 0))) = None
   \<and> 2 < snd (snd (snd (the (indexCache (exEnv [exFile (js ''a.md'') 2] (Some 2) None)
                               exOptions (exTwoFiles, Map.empty, 0)))))
   \<and> phase (status (fst (snd (the (indexCache (exEnv [exFile (js ''a.md'') 2] (Some 2) None)
                                      exOptions (exTwoFiles, Map.empty, 0)))))) = Ready
   \<and> message (status (fst (snd (the (indexCache (exEnv [exFile (js ''a.md'') 2] (Some 2) None)
                                      exOptions (exTwoFiles, Map.empty, 0))))))
       = Some (js ''RAG index is ready'')
   \<and> indexRevision exTwoFiles = 1
   \<and> indexRevision (fst (snd (the (indexCache (exEnv [exFile (js ''a.md'') 2] (Some 2) None)
                                      exOptions (exTwoFiles, Map.empty, 0))))) = 2
   \<and> (Map.empty :: disk) (dbPath (js ''/a'')) = None
   \<and> fst (snd (snd (the (indexCache (exEnv [exFile (js ''a.md'') 2] (Some 2) None)
                            exOptions (exTwoFiles, Map.empty, 0))))) (dbPath (js ''/a'')) \<noteq> None"
proof -
  from ex_index_abort_unobserved obtain c' d' t' where
    run: "indexCache (exEnv [exFile (js ''a.md'') 2] (Some 2) None) exOptions
            (exTwoFiles, Map.empty, 0) = Some (None, c', d', t')"
    and r: "2 < t'" "phase (status c') = Ready"
           "message (status c') = Some (js ''RAG index is ready'')"
           "indexRevision c' = 2" "d' (dbPath (js ''/a'')) \<noteq> None"
    by blast
  have r1: "indexRevision exTwoFiles = 1" by (simp add: exTwoFiles_def exCache_def)
  show ?thesis using r r1 by (simp add: run exEnv_sel)
qed

text \<open>
  What the \<open>catch\<close> clause leaves. The final phase is \<open>idle\<close>, with the message
  \<open>Indexing was cancelled\<close>, exactly when the exception caught is a \<open>DOMException\<close> named
  \<open>AbortError\<close>, and \<open>error\<close> otherwise. Either the disk and \<open>indexRevision\<close> are those
  before the call, or the exception is the one with which \<open>saveToDisk\<close> rejected: then
  \<open>indexRevision\<close> has been incremented, and the disk is what the rejected
  \<open>saveToDisk\<close> left.
\<close>

lemma index_catch_outcome:
  assumes run: "indexCache env options (c, d, t) = Some (Some err, c', d', t')"
  shows "(isAbortError err \<longrightarrow>
            phase (status c') = Idle
            \<and> message (status c') = Some (js ''Indexing was cancelled''))
       \<and> (\<not> isAbortError err \<longrightarrow> phase (status c') = Failed)
       \<and> ((d' = d \<and> indexRevision c' = indexRevision c)
          \<or> (indexRevision c' = indexRevision c + 1
              \<and> (\<exists>mk wr now. saveToDisk mk wr now d (folderPath c) (chunks c') (fileStates c')
                                 = (Some err, d'))))"
proof -
  from run obtain cfg cb where
    cf: "indexRevision cfg = indexRevision c" "folderPath cfg = folderPath c"
    and body: "indexBody env (case concurrency options of Some n \<Rightarrow> n | None \<Rightarrow> FILE_EMBED_CONCURRENCY)
       (case embedBatchSize options of Some b \<Rightarrow> b | None \<Rightarrow> EMBED_BATCH_SIZE)
       (cfg, d, t) = Some (Some err, cb, d', t')"
    and c': "c' = (case Some err of None \<Rightarrow> cb | Some err \<Rightarrow> catchIndex err cb)"
    by (rule indexCache_split)
  let ?c0 = "fst (ensurePersistedLoaded env d (cfg, t))"
  have cb: "c' = catchIndex err cb" using c' by simp
  have r0: "indexRevision ?c0 = indexRevision c" "folderPath ?c0 = folderPath c"
    by (simp_all add: ensurePersistedLoaded_fields cf)
  note br = indexBody_result[OF body]
  from br[THEN conjunct2, THEN conjunct2, THEN conjunct1]
  have k: "(d' = d \<and> indexRevision cb = indexRevision ?c0)
            \<or> (indexRevision cb = indexRevision ?c0 + 1
                \<and> (\<exists>mk wr now. saveToDisk mk wr now d (folderPath ?c0) (chunks cb) (fileStates cb)
                                   = (Some err, d')))"
    by simp
  have g3: "(d' = d \<and> indexRevision c' = indexRevision c)
          \<or> (indexRevision c' = indexRevision c + 1
              \<and> (\<exists>mk wr now. saveToDisk mk wr now d (folderPath c) (chunks c') (fileStates c')
                                 = (Some err, d')))"
    using k unfolding cb r0 by (simp add: catchIndex_fields)
  have g1: "isAbortError err \<longrightarrow>
            phase (status c') = Idle
            \<and> message (status c') = Some (js ''Indexing was cancelled'')"
    unfolding cb by (simp add: catchIndex_fields)
  have g2: "\<not> isAbortError err \<longrightarrow> phase (status c') = Failed"
    unfolding cb by (simp add: catchIndex_fields)
  show ?thesis by (intro conjI g1 g2 g3)
qed

text \<open>
  The checkpoint after the scan. When the scan has returned and the signal, which has no
  reason of its own, is aborted by then, \<open>index\<close> ends with phase \<open>idle\<close> and the message
  \<open>Indexing was cancelled\<close>, with the disk and the revision it started with.
\<close>

lemma index_abort_after_scan:
  assumes scan: "scanDirectory env (folderPath c) = Inr candidates"
      and ab: "aborted env (snd (ensurePersistedLoaded env d (c, t)) + 1)"
      and nr: "abortReason env = None"
  shows "\<exists>c'. indexCache env options (c, d, t)
                 = Some (Some (DOMException (js ''AbortError'') (js ''Aborted'')), c', d,
                         snd (ensurePersistedLoaded env d (c, t)) + 1)
           \<and> phase (status c') = Idle
           \<and> message (status c') = Some (js ''Indexing was cancelled'')
           \<and> indexRevision c' = indexRevision c"
proof -
  define cfg where "cfg = c\<lparr>
            configEnabled := True,
            storagePath := (case outputFolder options of
                              Some out \<Rightarrow> if out \<noteq> [] then Some (normalizeFolderPath out)
                                          else storagePath c
                            | None \<Rightarrow> storagePath c),
            status := (status c)\<lparr>enabled := True, phase := Scanning,
                                     message := Some (js ''Scanning files...'')\<rparr>\<rparr>"
  define cl where "cl = (case concurrency options of
                           Some n \<Rightarrow> n | None \<Rightarrow> FILE_EMBED_CONCURRENCY)"
  define b where "b = (case embedBatchSize options of Some b \<Rightarrow> b | None \<Rightarrow> EMBED_BATCH_SIZE)"
  define c0 where "c0 = fst (ensurePersistedLoaded env d (cfg, t))"
  define t0 where "t0 = snd (ensurePersistedLoaded env d (cfg, t))"
  have unf: "indexCache env options (c, d, t) =
      (case indexBody env cl b (cfg, d, t) of
           None \<Rightarrow> None
         | Some (None, cache', d', t') \<Rightarrow> Some (None, cache', d', t')
         | Some (Some err, cache', d', t') \<Rightarrow> Some (Some err, catchIndex err cache', d', t'))"
    unfolding indexCache_def cfg_def b_def cl_def by (simp add: Let_def)
  have l3: "t0 = snd (ensurePersistedLoaded env d (c, t))"
    unfolding t0_def cfg_def by (rule ensurePersistedLoaded_clock)
  have l4: "folderPath c0 = folderPath c" "indexRevision c0 = indexRevision c"
    unfolding c0_def by (simp_all add: ensurePersistedLoaded_fields cfg_def)
  have sc: "scanDirectory env (folderPath c0) = Inr candidates" unfolding l4 by (rule scan)
  have a0: "aborted env (t0 + 1)" unfolding l3 by (rule ab)
  have ae: "abortError env = DOMException (js ''AbortError'') (js ''Aborted'')"
    using nr by (simp add: abortError_def)
  have body: "indexBody env cl b (cfg, d, t) = Some (Some (abortError env), c0, d, t0 + 1)"
    unfolding indexBody_def using sc a0
    by (simp add: Let_def c0_def[symmetric] t0_def[symmetric])
  have run: "indexCache env options (c, d, t)
               = Some (Some (abortError env), catchIndex (abortError env) c0, d, t0 + 1)"
    unfolding unf body by simp
  have ia: "isAbortError (abortError env)" unfolding ae by (simp add: isAbortError_def)
  have "indexCache env options (c, d, t)
          = Some (Some (DOMException (js ''AbortError'') (js ''Aborted'')),
                  catchIndex (abortError env) c0, d, snd (ensurePersistedLoaded env d (c, t)) + 1)
        \<and> phase (status (catchIndex (abortError env) c0)) = Idle
        \<and> message (status (catchIndex (abortError env) c0)) = Some (js ''Indexing was cancelled'')
        \<and> indexRevision (catchIndex (abortError env) c0) = indexRevision c"
    using run ia l4 unfolding ae l3 by (simp add: catchIndex_fields)
  then show ?thesis by blast
qed

subsection \<open>A second run on an unchanged tree\<close>

text \<open>
  When every file of the content-hash loop has a file state with the hash of its
  content, the loop takes the fast path for each of them and leaves \<open>filesToProcess\<close> as
  it is.
\<close>

lemma hashCheck_all_fast:
  assumes "\<forall>f\<in>set files. \<exists>prev content.
             map_of (fileStates c) (relativePath f) = Some prev \<and> sContentHash prev \<noteq> []
             \<and> readFile env (fullPath f) = Inr content
             \<and> computeContentHash env content = sContentHash prev"
  shows "\<exists>c' t'. hashCheck env files (c, todo, t) = (None, c', todo, t')
           \<and> skippedUnchanged (status c') = skippedUnchanged (status c) + length files
           \<and> totalFiles (status c') = totalFiles (status c)
           \<and> chunks c' = chunks c \<and> indexRevision c' = indexRevision c
           \<and> folderPath c' = folderPath c"
  using assms
proof (induction files arbitrary: c t)
  case Nil
  then show ?case by simp
next
  case (Cons f fs)
  from Cons.prems obtain prev content where
    p: "map_of (fileStates c) (relativePath f) = Some prev" "sContentHash prev \<noteq> []"
       "readFile env (fullPath f) = Inr content"
       "computeContentHash env content = sContentHash prev"
    by auto
  define c1 where "c1 = c\<lparr>fileStates :=
                            AList.update (relativePath f)
                              (prev\<lparr>sModifiedAt := fModifiedAt f, sSize := fSize f\<rparr>)
                              (fileStates c),
                          status := (status c)\<lparr>skippedUnchanged :=
                                                     skippedUnchanged (status c) + 1\<rparr>\<rparr>"
  have step: "hashCheck env (f # fs) (c, todo, t) = hashCheck env fs (c1, todo, t + 1)"
    using p by (simp add: Let_def c1_def)
  have pre: "\<forall>g\<in>set fs. \<exists>prev content.
             map_of (fileStates c1) (relativePath g) = Some prev \<and> sContentHash prev \<noteq> []
             \<and> readFile env (fullPath g) = Inr content
             \<and> computeContentHash env content = sContentHash prev"
  proof
    fix g assume g: "g \<in> set fs"
    with Cons.prems obtain pg cg where
      q: "map_of (fileStates c) (relativePath g) = Some pg" "sContentHash pg \<noteq> []"
         "readFile env (fullPath g) = Inr cg"
         "computeContentHash env cg = sContentHash pg"
      by auto
    show "\<exists>prev content.
             map_of (fileStates c1) (relativePath g) = Some prev \<and> sContentHash prev \<noteq> []
             \<and> readFile env (fullPath g) = Inr content
             \<and> computeContentHash env content = sContentHash prev"
    proof (cases "relativePath g = relativePath f")
      case True
      with p q have "map_of (fileStates c1) (relativePath g)
                       = Some (prev\<lparr>sModifiedAt := fModifiedAt f, sSize := fSize f\<rparr>)
                     \<and> sContentHash (prev\<lparr>sModifiedAt := fModifiedAt f, sSize := fSize f\<rparr>) \<noteq> []
                     \<and> readFile env (fullPath g) = Inr cg
                     \<and> computeContentHash env cg
                         = sContentHash (prev\<lparr>sModifiedAt := fModifiedAt f, sSize := fSize f\<rparr>)"
        by (simp add: c1_def update_conv')
      then show ?thesis by blast
    next
      case False
      with q have "map_of (fileStates c1) (relativePath g) = Some pg"
        by (simp add: c1_def update_conv')
      with q show ?thesis by blast
    qed
  qed
  from Cons.IH[OF pre, of "t + 1"] obtain c' t' where
    r: "hashCheck env fs (c1, todo, t + 1) = (None, c', todo, t')"
       "skippedUnchanged (status c') = skippedUnchanged (status c1) + length fs"
       "totalFiles (status c') = totalFiles (status c1)"
       "chunks c' = chunks c1" "indexRevision c' = indexRevision c1"
       "folderPath c' = folderPath c1"
    by blast
  have "hashCheck env (f # fs) (c, todo, t) = (None, c', todo, t')
           \<and> skippedUnchanged (status c') = skippedUnchanged (status c) + length (f # fs)
           \<and> totalFiles (status c') = totalFiles (status c)
           \<and> chunks c' = chunks c \<and> indexRevision c' = indexRevision c
           \<and> folderPath c' = folderPath c"
    unfolding step using r by (simp add: c1_def)
  then show ?case by blast
qed

text \<open>
  Claim C5. The scan returns \<open>candidates\<close> and the signal is not aborted when the scan
  has returned. Every path tracked by the cache as loaded is among the candidates, and
  every candidate has a file state there which either has the candidate's \<open>modifiedAt\<close>
  and \<open>size\<close>, or has a non-empty content hash which is the hash of the file as read.
  Then \<open>index\<close> returns normally, with phase \<open>ready\<close>, \<open>skippedUnchanged\<close> equal to
  \<open>totalFiles\<close>, the revision of the cache before the call, the chunks map as loaded, and
  the disk it started with: \<open>saveToDisk\<close>, the only write, is not called.
\<close>

theorem reindex_unchanged_tree_is_noop:
  assumes scan: "scanDirectory env (folderPath c) = Inr candidates"
      and live: "\<not> aborted env (snd (ensurePersistedLoaded env d (c, t)) + 1)"
      and tracked: "\<forall>k\<in>fst ` set (fileStates (fst (ensurePersistedLoaded env d (c, t)))).
                      k \<in> relativePath ` set candidates"
      and same: "\<forall>f\<in>set candidates. \<exists>prev.
                   map_of (fileStates (fst (ensurePersistedLoaded env d (c, t)))) (relativePath f)
                     = Some prev
                   \<and> ((sModifiedAt prev = fModifiedAt f \<and> sSize prev = fSize f)
                      \<or> (sContentHash prev \<noteq> []
                          \<and> (\<exists>content. readFile env (fullPath f) = Inr content
                                \<and> computeContentHash env content = sContentHash prev)))"
  shows "\<exists>c' t'. indexCache env options (c, d, t) = Some (None, c', d, t')
           \<and> phase (status c') = Ready
           \<and> totalFiles (status c') = length candidates
           \<and> skippedUnchanged (status c') = totalFiles (status c')
           \<and> indexRevision c' = indexRevision c
           \<and> chunks c' = chunks (fst (ensurePersistedLoaded env d (c, t)))"
proof -
  define cfg where "cfg = c\<lparr>
            configEnabled := True,
            storagePath := (case outputFolder options of
                              Some out \<Rightarrow> if out \<noteq> [] then Some (normalizeFolderPath out)
                                          else storagePath c
                            | None \<Rightarrow> storagePath c),
            status := (status c)\<lparr>enabled := True, phase := Scanning,
                                     message := Some (js ''Scanning files...'')\<rparr>\<rparr>"
  define cl where "cl = (case concurrency options of
                           Some n \<Rightarrow> n | None \<Rightarrow> FILE_EMBED_CONCURRENCY)"
  define b where "b = (case embedBatchSize options of Some b \<Rightarrow> b | None \<Rightarrow> EMBED_BATCH_SIZE)"
  define c0 where "c0 = fst (ensurePersistedLoaded env d (cfg, t))"
  define t0 where "t0 = snd (ensurePersistedLoaded env d (cfg, t))"
  let ?l = "fst (ensurePersistedLoaded env d (c, t))"
  have unf: "indexCache env options (c, d, t) =
      (case indexBody env cl b (cfg, d, t) of
           None \<Rightarrow> None
         | Some (None, cache', d', t') \<Rightarrow> Some (None, cache', d', t')
         | Some (Some err, cache', d', t') \<Rightarrow> Some (Some err, catchIndex err cache', d', t'))"
    unfolding indexCache_def cfg_def b_def cl_def by (simp add: Let_def)
  have l1: "chunks c0 = chunks ?l" unfolding c0_def cfg_def by (rule ensurePersistedLoaded_configured)
  have l2: "fileStates c0 = fileStates ?l"
    unfolding c0_def cfg_def by (rule ensurePersistedLoaded_configured)
  have l3: "t0 = snd (ensurePersistedLoaded env d (c, t))"
    unfolding t0_def cfg_def by (rule ensurePersistedLoaded_clock)
  have l4: "folderPath c0 = folderPath c" "indexRevision c0 = indexRevision c"
    unfolding c0_def by (simp_all add: ensurePersistedLoaded_fields cfg_def)
  obtain c3 ra cf where dc: "detectChanges candidates c0 = (c3, ra, cf)"
    by (cases "detectChanges candidates c0") auto
  note df = detectChanges_frame[OF dc]
  note d1 = df[THEN conjunct1]
  note d2 = df[THEN conjunct2, THEN conjunct1]
  note d5 = df[THEN conjunct2, THEN conjunct2, THEN conjunct2, THEN conjunct2, THEN conjunct1]
  note d6 = df[THEN conjunct2, THEN conjunct2, THEN conjunct2, THEN conjunct2, THEN conjunct2,
               THEN conjunct1]
  note d7 = df[THEN conjunct2, THEN conjunct2, THEN conjunct2, THEN conjunct2, THEN conjunct2,
               THEN conjunct2, THEN conjunct1]
  note d8 = df[THEN conjunct2, THEN conjunct2, THEN conjunct2, THEN conjunct2, THEN conjunct2,
               THEN conjunct2, THEN conjunct2, THEN conjunct1]
  note d9 = df[THEN conjunct2, THEN conjunct2, THEN conjunct2, THEN conjunct2, THEN conjunct2,
               THEN conjunct2, THEN conjunct2, THEN conjunct2]
  have nra: "\<not> ra" unfolding d6 l2 using tracked by blast
  have k3: "chunks c3 = chunks c0" "fileStates c3 = fileStates c0" using d5 nra by simp_all
  have pre: "\<forall>f\<in>set cf. \<exists>prev content.
             map_of (fileStates c3) (relativePath f) = Some prev \<and> sContentHash prev \<noteq> []
             \<and> readFile env (fullPath f) = Inr content
             \<and> computeContentHash env content = sContentHash prev"
  proof
    fix f assume "f \<in> set cf"
    then have fc: "f \<in> set candidates" and nu: "\<not> unchangedMeta c3 f" unfolding d7 by simp_all
    from same fc obtain prev where
      pv: "map_of (fileStates ?l) (relativePath f) = Some prev"
      and alt: "(sModifiedAt prev = fModifiedAt f \<and> sSize prev = fSize f)
                \<or> (sContentHash prev \<noteq> []
                    \<and> (\<exists>content. readFile env (fullPath f) = Inr content
                          \<and> computeContentHash env content = sContentHash prev))"
      by blast
    have pv3: "map_of (fileStates c3) (relativePath f) = Some prev" unfolding k3 l2 by (rule pv)
    from nu pv3 have "\<not> (sModifiedAt prev = fModifiedAt f \<and> sSize prev = fSize f)"
      by (simp add: unchangedMeta_def)
    with alt pv3 show "\<exists>prev content.
             map_of (fileStates c3) (relativePath f) = Some prev \<and> sContentHash prev \<noteq> []
             \<and> readFile env (fullPath f) = Inr content
             \<and> computeContentHash env content = sContentHash prev"
      by blast
  qed
  from hashCheck_all_fast[OF pre, of "[]" "t0 + 1"] obtain c4 t4 where
    hc: "hashCheck env cf (c3, [], t0 + 1) = (None, c4, [], t4)"
    and h: "skippedUnchanged (status c4) = skippedUnchanged (status c3) + length cf"
           "totalFiles (status c4) = totalFiles (status c3)"
           "chunks c4 = chunks c3" "indexRevision c4 = indexRevision c3"
           "folderPath c4 = folderPath c3"
    by blast
  define c5 where "c5 = c4\<lparr>status := (status c4)\<lparr>filesToEmbed := 0, embeddedFiles := 0\<rparr>\<rparr>"
  obtain r7 c7 d7 t7 where fi: "finishIndex env False (c5, d, t4) = (r7, c7, d7, t7)"
    by (cases "finishIndex env False (c5, d, t4)") auto
  from finishIndex_fields[OF fi]
  have f: "chunks c7 = chunks c5" "indexRevision c7 = indexRevision c5" "r7 = None \<and> d7 = d"
          "phase (status c7) = Ready" "totalFiles (status c7) = totalFiles (status c5)"
          "skippedUnchanged (status c7) = skippedUnchanged (status c5)"
    by simp_all
  have na: "\<not> aborted env (t0 + 1)" unfolding l3 by (rule live)
  have sc: "scanDirectory env (folderPath c0) = Inr candidates" unfolding l4 by (rule scan)
  have body: "indexBody env cl b (cfg, d, t) = Some (None, c7, d, t7)"
    unfolding indexBody_def
    using sc na dc hc fi f(3) nra
    by (simp add: Let_def c0_def[symmetric] t0_def[symmetric] runWithConcurrency_def
          c5_def[symmetric])
  have run: "indexCache env options (c, d, t) = Some (None, c7, d, t7)"
    unfolding unf body by simp
  have tot: "totalFiles (status c7) = length candidates"
    unfolding f c5_def using h d8 by simp
  have "length (filter (unchangedMeta c3) candidates)
          + length (filter (\<lambda>f. \<not> unchangedMeta c3 f) candidates) = length candidates"
    by (rule sum_length_filter_compl)
  then have sk: "skippedUnchanged (status c7) = totalFiles (status c7)"
    unfolding tot f c5_def using h d9 d7 by simp
  have rev: "indexRevision c7 = indexRevision c"
    unfolding f c5_def using h d1 l4 by simp
  have ch: "chunks c7 = chunks ?l"
    unfolding f c5_def using h k3 l1 by simp
  show ?thesis using run f(4) tot sk rev ch by blast
qed

theorem reindex_unchanged_tree_is_noop_witness:
  "scanDirectory (exEnv [exFile (js ''a.md'') 2, exFile (js ''b.md'') 1] None None)
     (folderPath exTwoFiles) = Inr [exFile (js ''a.md'') 2, exFile (js ''b.md'') 1]
   \<and> map_of (fileStates exTwoFiles) (js ''a.md'') = Some (exState 1 [js ''a.md::0''])
   \<and> map_of (fileStates exTwoFiles) (js ''b.md'') = Some (exState 1 [js ''b.md::0''])
   \<and> (\<exists>c' t'. indexCache (exEnv [exFile (js ''a.md'') 2, exFile (js ''b.md'') 1] None None)
                  exOptions (exTwoFiles, Map.empty, 0) = Some (None, c', Map.empty, t')
         \<and> phase (status c') = Ready
         \<and> totalFiles (status c') = 2
         \<and> skippedUnchanged (status c') = 2
         \<and> indexRevision c' = 1)"
proof -
  let ?E = "exEnv [exFile (js ''a.md'') 2, exFile (js ''b.md'') 1] None None"
  let ?cs = "[exFile (js ''a.md'') 2, exFile (js ''b.md'') 1]"
  have scan: "scanDirectory ?E (folderPath exTwoFiles) = Inr ?cs" by (simp add: exEnv_sel)
  have live: "\<not> aborted ?E (snd (ensurePersistedLoaded ?E Map.empty (exTwoFiles, 0)) + 1)"
    unfolding ex_loaded by (simp add: aborted_def exEnv_sel)
  have sa: "map_of (fileStates exTwoFiles) (js ''a.md'') = Some (exState 1 [js ''a.md::0''])"
    by (simp add: exTwoFiles_def exCache_def chunkIdFor_def decimal_digit digitChars_def js_def)
  have sb: "map_of (fileStates exTwoFiles) (js ''b.md'') = Some (exState 1 [js ''b.md::0''])"
    by (simp add: exTwoFiles_def exCache_def chunkIdFor_def decimal_digit digitChars_def js_def)
  have tracked: "\<forall>k\<in>fst ` set (fileStates (fst (ensurePersistedLoaded ?E Map.empty (exTwoFiles, 0)))).
                      k \<in> relativePath ` set ?cs"
    unfolding ex_loaded by (simp add: exTwoFiles_def exCache_def exFile_def)
  have same: "\<forall>f\<in>set ?cs. \<exists>prev.
                   map_of (fileStates (fst (ensurePersistedLoaded ?E Map.empty (exTwoFiles, 0))))
                     (relativePath f) = Some prev
                   \<and> ((sModifiedAt prev = fModifiedAt f \<and> sSize prev = fSize f)
                      \<or> (sContentHash prev \<noteq> []
                          \<and> (\<exists>content. readFile ?E (fullPath f) = Inr content
                                \<and> computeContentHash ?E content = sContentHash prev)))"
    unfolding ex_loaded
    apply (simp add: sa sb exFile_def)
    apply (simp add: exState_def exEnv_sel js_def)
    done
  from reindex_unchanged_tree_is_noop[OF scan live tracked same, of exOptions]
  obtain c' t' where
    r: "indexCache ?E exOptions (exTwoFiles, Map.empty, 0) = Some (None, c', Map.empty, t')"
       "phase (status c') = Ready" "totalFiles (status c') = length ?cs"
       "skippedUnchanged (status c') = totalFiles (status c')"
       "indexRevision c' = indexRevision exTwoFiles"
    by (elim exE conjE) (rule that)
  have r1: "indexRevision exTwoFiles = 1" by (simp add: exTwoFiles_def exCache_def)
  have "indexCache ?E exOptions (exTwoFiles, Map.empty, 0) = Some (None, c', Map.empty, t')
         \<and> phase (status c') = Ready
         \<and> totalFiles (status c') = 2
         \<and> skippedUnchanged (status c') = 2
         \<and> indexRevision c' = 1"
    using r r1 by simp
  then have "\<exists>c' t'. indexCache ?E exOptions (exTwoFiles, Map.empty, 0) = Some (None, c', Map.empty, t')
         \<and> phase (status c') = Ready
         \<and> totalFiles (status c') = 2
         \<and> skippedUnchanged (status c') = 2
         \<and> indexRevision c' = 1" by blast
  with scan sa sb show ?thesis by blast
qed


end
